theory Spec2Isabelle
  imports Complex_Main
begin

section \<open>Guess Hessians of pysisyphus in internal coordinates\<close>

text \<open>
  The development embeds \<^verbatim>\<open>pysisyphus/optimizers/guess_hessians.py\<close>: the four
  generators \<^verbatim>\<open>simple_guess\<close>, \<^verbatim>\<open>fischer_guess\<close>, \<^verbatim>\<open>lindh_guess\<close> and
  \<^verbatim>\<open>swart_guess\<close> and the helper \<^verbatim>\<open>get_pair_covalent_radii\<close>.

  Numbers: a float64 value is the real number it denotes. The two vectors every model
  starts from, the distances of \<^verbatim>\<open>pdist\<close> and the sums of covalent radii, and the product
  with the bond factor that decides the bonds, are the rounded values the program computes:
  the rounding of a sum or product and the metric of \<^verbatim>\<open>pdist\<close> are the parameter
  \<open>fo\<close> of the model, so that a theorem holds whatever the rounding is. The closed-form
  force constants computed from these vectors are read as real expressions; their own
  rounding, overflow and underflow are outside the model. Where numpy leaves the real
  numbers without raising (a division by zero, a negative base under a fractional
  exponent) it goes on with \<^verbatim>\<open>nan\<close> or \<^verbatim>\<open>inf\<close>; an entry that can be such a value
  has the type \<open>real option\<close>, with \<open>None\<close> for \<^verbatim>\<open>nan\<close> and \<^verbatim>\<open>inf\<close>.
\<close>

subsection \<open>Data\<close>

type_synonym vec3 = "real \<times> real \<times> real"

text \<open>
  The float64 arithmetic behind the vectors: \<open>rnd\<close> rounds the exact result of an addition
  or a multiplication to float64, and \<open>metric\<close> is the distance \<^verbatim>\<open>pdist\<close> computes for
  two rows.
\<close>

record float_ops =
  rnd :: "real \<Rightarrow> real"
  metric :: "vec3 \<Rightarrow> vec3 \<Rightarrow> real"

text \<open>
  A primitive internal coordinate as the generators see it: an object with the attribute
  \<^verbatim>\<open>inds\<close>, the array of its atom indices. Its length dispatches on the kind
  (2 bond, 3 bend, 4 dihedral). Atom indices are positions in the atom sequence, hence
  natural numbers.
\<close>

record primitive =
  inds :: "nat list"

text \<open>
  \<^verbatim>\<open>geom.internal\<close>: the class is not part of the sources at hand; the generators
  read its attributes \<^verbatim>\<open>bond_factor\<close>, \<^verbatim>\<open>_prim_coords\<close> and \<^verbatim>\<open>dihedrals\<close>, which
  are the fields here. (\<^verbatim>\<open>fischer_guess\<close> also reads \<^verbatim>\<open>bonds\<close> and never uses it.)
\<close>

record internal_coords =
  bond_factor :: real
  prim_coords :: "primitive list"
  dihedrals :: "primitive list"

text \<open>
  Modelled from the spec: the class Geometry is not part of the sources at hand. Section 3
  of the specification describes an atom as an element symbol with a 3D Cartesian position
  and a geometry as an ordered sequence of atoms; \<^verbatim>\<open>geom.atoms\<close> and
  \<^verbatim>\<open>geom.coords3d\<close> are its two projections, so they always have the same length.
\<close>

record geom =
  atom_seq :: "(string \<times> vec3) list"
  internal :: internal_coords

definition atoms :: "geom \<Rightarrow> string list" where
  "atoms g = map fst (atom_seq g)"

definition coords3d :: "geom \<Rightarrow> vec3 list" where
  "coords3d g = map snd (atom_seq g)"

subsection \<open>Errors\<close>

text \<open>
  The keys of the dictionaries that are subscripted: an element symbol
  (\<^verbatim>\<open>COVALENT_RADII[a]\<close>), a length (\<^verbatim>\<open>h_dict\<close>, \<^verbatim>\<open>h_funcs\<close>, \<^verbatim>\<open>k_dict\<close>)
  and a pair of atom indices (\<^verbatim>\<open>tors_atom_bonds\<close>).
\<close>

datatype key = KStr string | KInt nat | KPair nat nat

text \<open>The Python exceptions the generators can raise.\<close>

datatype error = KeyError key | IndexError | ValueError

text \<open>A list comprehension or a loop that appends: the first exception ends it.\<close>

fun collect :: "('a \<Rightarrow> error + 'b) \<Rightarrow> 'a list \<Rightarrow> error + 'b list" where
  "collect f [] = Inr []"
| "collect f (x # xs) =
     (case f x of
        Inl e \<Rightarrow> Inl e
      | Inr y \<Rightarrow> (case collect f xs of Inl e \<Rightarrow> Inl e | Inr ys \<Rightarrow> Inr (y # ys)))"

text \<open>Subscripting a dictionary whose keys are lengths.\<close>

definition getitem :: "(nat \<rightharpoonup> 'v) \<Rightarrow> nat \<Rightarrow> error + 'v" where
  "getitem d k = (case d k of None \<Rightarrow> Inl (KeyError (KInt k)) | Some v \<Rightarrow> Inr v)"

text \<open>
  \<^verbatim>\<open>np.diagflat\<close> of a flat list: the square matrix with the list on its diagonal and
  the zero \<open>z\<close> of the element type elsewhere.
\<close>

definition diagflat :: "'a \<Rightarrow> 'a list \<Rightarrow> 'a list list" where
  "diagflat z xs =
     map (\<lambda>i. map (\<lambda>j. if i = j then xs ! i else z) [0..<length xs]) [0..<length xs]"

subsection \<open>simple\_guess\<close>

definition h_dict :: "nat \<rightharpoonup> real" where
  "h_dict = [2 \<mapsto> 0.5, 3 \<mapsto> 0.2, 4 \<mapsto> 0.1]"

definition simple_guess :: "geom \<Rightarrow> error + real list list" where
  "simple_guess g =
     (case collect (\<lambda>prim. getitem h_dict (length (inds prim))) (prim_coords (internal g)) of
        Inl e \<Rightarrow> Inl e
      | Inr h_diag \<Rightarrow> Inr (diagflat 0 h_diag))"

subsection \<open>Pairs, condensed vectors and square forms\<close>

text \<open>\<^verbatim>\<open>itertools.combinations(xs, 2)\<close>: the pairs at positions i < j, in lexicographic order.\<close>

fun combinations2 :: "'a list \<Rightarrow> ('a \<times> 'a) list" where
  "combinations2 [] = []"
| "combinations2 (x # xs) = map (Pair x) xs @ combinations2 xs"

text \<open>
  \<^verbatim>\<open>scipy.spatial.distance.pdist\<close> with its default metric: the condensed vector of the
  Euclidean distances, as float64 computes them, of all pairs of rows, in the order of
  \<open>combinations2\<close>.
\<close>

definition pdist :: "float_ops \<Rightarrow> vec3 list \<Rightarrow> real list" where
  "pdist fo X = map (\<lambda>(p, q). metric fo p q) (combinations2 X)"

text \<open>
  \<^verbatim>\<open>scipy.spatial.distance.squareform\<close> on a condensed vector \<open>v\<close>. The dimension \<open>d\<close> is
  the one with \<open>d (d - 1) = 2 len v\<close> (1 for the empty vector); there is a
  \<^verbatim>\<open>ValueError\<close> when none exists. The entry of the pair i < j is read at the position
  the pair has in the condensed order, \<open>cidx d i j\<close>; the matrix is symmetric and its
  diagonal holds the zero of the element type (\<open>0\<close>, or \<open>False\<close> for booleans).
\<close>

definition sq_dim :: "nat \<Rightarrow> nat option" where
  "sq_dim len = find (\<lambda>d. d * (d - 1) = 2 * len) [1..<len + 2]"

fun cidx :: "nat \<Rightarrow> nat \<Rightarrow> nat \<Rightarrow> nat" where
  "cidx d 0 j = j - 1"
| "cidx d (Suc i) j = (d - 1) + cidx (d - 1) i (j - 1)"

definition square :: "'a \<Rightarrow> nat \<Rightarrow> 'a list \<Rightarrow> 'a list list" where
  "square z d v =
     map (\<lambda>i. map (\<lambda>j. if i = j then z
                        else if i < j then v ! cidx d i j
                        else v ! cidx d j i) [0..<d]) [0..<d]"

definition squareform :: "'a \<Rightarrow> 'a list \<Rightarrow> error + 'a list list" where
  "squareform z v =
     (case sq_dim (length v) of
        None \<Rightarrow> Inl ValueError
      | Some d \<Rightarrow> Inr (square z d v))"

text \<open>\<^verbatim>\<open>M[a, b]\<close> and \<^verbatim>\<open>M[a]\<close> on a numpy matrix, for indices that are not negative.\<close>

definition mat_get :: "'a list list \<Rightarrow> nat \<Rightarrow> nat \<Rightarrow> error + 'a" where
  "mat_get M a b =
     (if a < length M \<and> b < length (M ! a) then Inr (M ! a ! b) else Inl IndexError)"

definition row_get :: "'a list list \<Rightarrow> nat \<Rightarrow> error + 'a list" where
  "row_get M a = (if a < length M then Inr (M ! a) else Inl IndexError)"

text \<open>\<^verbatim>\<open>.sum()\<close> of a boolean row: the number of its true entries, a numpy integer.\<close>

definition row_sum :: "bool list \<Rightarrow> int" where
  "row_sum r = int (length (filter (\<lambda>b. b) r))"

subsection \<open>Covalent radii\<close>

text \<open>
  \<^verbatim>\<open>str.lower\<close> on element symbols. Characters are bytes here, and only the ASCII
  capitals have a lower-case form.
\<close>

definition lower_char :: "char \<Rightarrow> char" where
  "lower_char c =
     (case map_of (zip ''ABCDEFGHIJKLMNOPQRSTUVWXYZ'' ''abcdefghijklmnopqrstuvwxyz'') c of
        None \<Rightarrow> c
      | Some l \<Rightarrow> l)"

definition lower :: "string \<Rightarrow> string" where
  "lower s = map lower_char s"

text \<open>
  \<^verbatim>\<open>COVALENT_RADII\<close> is imported from \<^verbatim>\<open>pysisyphus.elem_data\<close>, which is not part
  of the sources at hand: the table is the parameter \<open>cr\<close> of every function that reads it.
\<close>

type_synonym radii = "string \<rightharpoonup> real"

definition radius :: "radii \<Rightarrow> string \<Rightarrow> error + real" where
  "radius cr a = (case cr a of None \<Rightarrow> Inl (KeyError (KStr a)) | Some r \<Rightarrow> Inr r)"

definition get_pair_covalent_radii :: "float_ops \<Rightarrow> radii \<Rightarrow> geom \<Rightarrow> error + real list" where
  "get_pair_covalent_radii fo cr g =
     (case collect (radius cr) (map lower (atoms g)) of
        Inl e \<Rightarrow> Inl e
      | Inr cov_radii \<Rightarrow> Inr (map (\<lambda>(r1, r2). rnd fo (r1 + r2)) (combinations2 cov_radii)))"

subsection \<open>fischer\_guess\<close>

text \<open>
  A force constant of this model is \<open>Some x\<close> for a real number and \<open>None\<close> where numpy
  yields \<^verbatim>\<open>nan\<close> or \<^verbatim>\<open>inf\<close>.
\<close>

text \<open>
  \<^verbatim>\<open>squareform(cdm <= (pair_cov_radii * geom.internal.bond_factor))\<close>: the product is
  rounded before the comparison.
\<close>

definition bond_mat ::
  "float_ops \<Rightarrow> real list \<Rightarrow> real list \<Rightarrow> real \<Rightarrow> error + bool list list" where
  "bond_mat fo cdm pair_cov_radii bf =
     squareform False (map (\<lambda>(d, r). d \<le> rnd fo (r * bf)) (zip cdm pair_cov_radii))"

text \<open>
  The loop that fills \<^verbatim>\<open>tors_atom_bonds\<close>. Unpacking \<^verbatim>\<open>a, b\<close> needs exactly two
  indices (\<^verbatim>\<open>ValueError\<close> otherwise), \<^verbatim>\<open>bond_mat[a]\<close> needs a row (\<^verbatim>\<open>IndexError\<close>).
\<close>

fun tors_loop ::
  "bool list list \<Rightarrow> nat list list \<Rightarrow> (nat \<times> nat \<rightharpoonup> int) \<Rightarrow> error + (nat \<times> nat \<rightharpoonup> int)" where
  "tors_loop bm [] t = Inr t"
| "tors_loop bm (c # cs) t =
     (case c of
        [a, b] \<Rightarrow>
          (case row_get bm a of
             Inl e \<Rightarrow> Inl e
           | Inr ra \<Rightarrow>
               (case row_get bm b of
                  Inl e \<Rightarrow> Inl e
                | Inr rb \<Rightarrow> tors_loop bm cs (t((a, b) \<mapsto> row_sum ra + row_sum rb - 2))))
      | _ \<Rightarrow> Inl ValueError)"

definition central_atoms :: "primitive list \<Rightarrow> nat list list" where
  "central_atoms dhs = map (\<lambda>dh. take 2 (drop 1 (inds dh))) dhs"

definition h_bond :: "real list list \<Rightarrow> real list list \<Rightarrow> nat \<Rightarrow> nat \<Rightarrow> error + real option" where
  "h_bond dist_mat pair_cov_radii_mat a b =
     (case mat_get dist_mat a b of
        Inl e \<Rightarrow> Inl e
      | Inr r_ab \<Rightarrow>
          (case mat_get pair_cov_radii_mat a b of
             Inl e \<Rightarrow> Inl e
           | Inr r_ab_cov \<Rightarrow> Inr (Some (0.3601 * exp (- 1.944 * (r_ab - r_ab_cov))))))"

text \<open>
  \<^verbatim>\<open>0.11/(r_ab_cov*r_ac_cov)**(-0.42)\<close>: the power binds tighter than the division. A
  negative base gives \<^verbatim>\<open>nan\<close>. At base 0 numpy has \<^verbatim>\<open>0.11/inf = 0\<close>, which is also the
  value of the real expression below, as \<open>0 powr y = 0\<close> and \<open>x / 0 = 0\<close>.
\<close>

definition h_bend ::
  "real list list \<Rightarrow> real list list \<Rightarrow> nat \<Rightarrow> nat \<Rightarrow> nat \<Rightarrow> error + real option" where
  "h_bend dist_mat pair_cov_radii_mat b a c =
     (case mat_get dist_mat a b of
        Inl e \<Rightarrow> Inl e
      | Inr r_ab \<Rightarrow>
     (case mat_get dist_mat a c of
        Inl e \<Rightarrow> Inl e
      | Inr r_ac \<Rightarrow>
     (case mat_get pair_cov_radii_mat a b of
        Inl e \<Rightarrow> Inl e
      | Inr r_ab_cov \<Rightarrow>
     (case mat_get pair_cov_radii_mat a c of
        Inl e \<Rightarrow> Inl e
      | Inr r_ac_cov \<Rightarrow>
          Inr (if r_ab_cov * r_ac_cov < 0 then None
               else Some (0.089 + 0.11 / (r_ab_cov * r_ac_cov) powr (- 0.42)
                                  * exp (- 0.44 * (r_ab + r_ac - r_ab_cov - r_ac_cov))))))))"

text \<open>
  \<^verbatim>\<open>bond_sum**0.57\<close> is \<^verbatim>\<open>nan\<close> for a negative \<^verbatim>\<open>bond_sum\<close>, and the division by
  \<^verbatim>\<open>(r_ab*r_ab_cov)**4.0 = 0\<close> gives \<^verbatim>\<open>inf\<close> or \<^verbatim>\<open>nan\<close>.
\<close>

definition h_dihedral ::
  "real list list \<Rightarrow> real list list \<Rightarrow> (nat \<times> nat \<rightharpoonup> int) \<Rightarrow> nat \<Rightarrow> nat \<Rightarrow> error + real option" where
  "h_dihedral dist_mat pair_cov_radii_mat tors_atom_bonds a b =
     (case mat_get dist_mat a b of
        Inl e \<Rightarrow> Inl e
      | Inr r_ab \<Rightarrow>
     (case mat_get pair_cov_radii_mat a b of
        Inl e \<Rightarrow> Inl e
      | Inr r_ab_cov \<Rightarrow>
     (case tors_atom_bonds (a, b) of
        None \<Rightarrow> Inl (KeyError (KPair a b))
      | Some bond_sum \<Rightarrow>
          Inr (if bond_sum < 0 \<or> r_ab * r_ab_cov = 0 then None
               else Some (0.0015 + 14.0 * (real_of_int bond_sum) powr 0.57 / (r_ab * r_ab_cov) ^ 4
                                   * exp (- 2.85 * (r_ab - r_ab_cov)))))))"

text \<open>\<^verbatim>\<open>h_funcs[len(primitive.inds)](primitive)\<close>, with the unpacking of \<^verbatim>\<open>inds\<close>.\<close>

definition h_func ::
  "real list list \<Rightarrow> real list list \<Rightarrow> (nat \<times> nat \<rightharpoonup> int) \<Rightarrow> primitive \<Rightarrow> error + real option" where
  "h_func dist_mat pair_cov_radii_mat tors_atom_bonds prim =
     (case inds prim of
        [a, b] \<Rightarrow> h_bond dist_mat pair_cov_radii_mat a b
      | [b, a, c] \<Rightarrow> h_bend dist_mat pair_cov_radii_mat b a c
      | [c, a, b, d] \<Rightarrow> h_dihedral dist_mat pair_cov_radii_mat tors_atom_bonds a b
      | _ \<Rightarrow> Inl (KeyError (KInt (length (inds prim)))))"

definition fischer_guess ::
  "float_ops \<Rightarrow> radii \<Rightarrow> geom \<Rightarrow> error + real option list list" where
  "fischer_guess fo cr g =
     (let cdm = pdist fo (coords3d g) in
      case get_pair_covalent_radii fo cr g of
        Inl e \<Rightarrow> Inl e
      | Inr pair_cov_radii \<Rightarrow>
     (case bond_mat fo cdm pair_cov_radii (bond_factor (internal g)) of
        Inl e \<Rightarrow> Inl e
      | Inr bm \<Rightarrow>
     (case tors_loop bm (central_atoms (dihedrals (internal g))) Map.empty of
        Inl e \<Rightarrow> Inl e
      | Inr tors_atom_bonds \<Rightarrow>
     (case squareform 0 cdm of
        Inl e \<Rightarrow> Inl e
      | Inr dist_mat \<Rightarrow>
     (case squareform 0 pair_cov_radii of
        Inl e \<Rightarrow> Inl e
      | Inr pair_cov_radii_mat \<Rightarrow>
     (case collect (h_func dist_mat pair_cov_radii_mat tors_atom_bonds)
             (prim_coords (internal g)) of
        Inl e \<Rightarrow> Inl e
      | Inr h_diag \<Rightarrow> Inr (diagflat (Some 0) h_diag)))))))"

subsection \<open>lindh\_guess\<close>

definition first_period :: "string list" where
  "first_period = [''h'', ''he'']"

definition get_alpha :: "string \<Rightarrow> string \<Rightarrow> real" where
  "get_alpha atom1 atom2 =
     (if atom1 \<in> set first_period \<and> atom2 \<in> set first_period then 1
      else if atom1 \<in> set first_period \<or> atom2 \<in> set first_period then 0.3949
      else 0.28)"

definition k_dict_lindh :: "nat \<rightharpoonup> real" where
  "k_dict_lindh = [2 \<mapsto> 0.45, 3 \<mapsto> 0.15, 4 \<mapsto> 0.005]"

text \<open>
  The inner loop \<^verbatim>\<open>for i in range(primitive.inds.size-1)\<close>: it multiplies
  \<^verbatim>\<open>rhos[i1, i2]\<close> over the consecutive pairs of \<^verbatim>\<open>inds\<close>, starting from 1.
\<close>

fun lindh_rho_product :: "real list list \<Rightarrow> nat list \<Rightarrow> real \<Rightarrow> error + real" where
  "lindh_rho_product rhos (i1 # i2 # is) rho_product =
     (case mat_get rhos i1 i2 of
        Inl e \<Rightarrow> Inl e
      | Inr rho \<Rightarrow> lindh_rho_product rhos (i2 # is) (rho_product * rho))"
| "lindh_rho_product rhos is rho_product = Inr rho_product"

definition lindh_k :: "real list list \<Rightarrow> primitive \<Rightarrow> error + real" where
  "lindh_k rhos prim =
     (case lindh_rho_product rhos (inds prim) 1 of
        Inl e \<Rightarrow> Inl e
      | Inr rho_product \<Rightarrow>
          (case getitem k_dict_lindh (length (inds prim)) of
             Inl e \<Rightarrow> Inl e
           | Inr k \<Rightarrow> Inr (k * rho_product)))"

definition lindh_guess :: "float_ops \<Rightarrow> radii \<Rightarrow> geom \<Rightarrow> error + real list list" where
  "lindh_guess fo cr g =
     (let lowered = map lower (atoms g);
          alphas = map (\<lambda>(a1, a2). get_alpha a1 a2) (combinations2 lowered) in
      case get_pair_covalent_radii fo cr g of
        Inl e \<Rightarrow> Inl e
      | Inr pair_cov_radii \<Rightarrow>
     (let cdm = pdist fo (coords3d g) in
      case squareform 0
             (map (\<lambda>(alpha, r_cov, r). exp (alpha * (r_cov\<^sup>2 - r\<^sup>2)))
                  (zip alphas (zip pair_cov_radii cdm))) of
        Inl e \<Rightarrow> Inl e
      | Inr rhos \<Rightarrow>
     (case collect (lindh_k rhos) (prim_coords (internal g)) of
        Inl e \<Rightarrow> Inl e
      | Inr k_diag \<Rightarrow> Inr (diagflat 0 k_diag))))"

subsection \<open>swart\_guess\<close>

text \<open>
  \<^verbatim>\<open>np.exp(-cdm/pair_cov_radii + 1)\<close>, entry by entry. Where the sum of radii is 0, numpy
  divides by zero: a positive distance gives \<^verbatim>\<open>-inf\<close> and its exponential is 0; the
  distance 0 gives \<^verbatim>\<open>nan\<close>.
\<close>

definition swart_rho :: "real \<Rightarrow> real \<Rightarrow> real option" where
  "swart_rho r r_cov =
     (if r_cov = 0 then (if r = 0 then None else Some 0)
      else Some (exp (- r / r_cov + 1)))"

definition k_dict_swart :: "nat \<rightharpoonup> real" where
  "k_dict_swart = [2 \<mapsto> 0.35, 3 \<mapsto> 0.15, 4 \<mapsto> 0.005]"

fun swart_rho_product ::
  "real option list list \<Rightarrow> nat list \<Rightarrow> real option \<Rightarrow> error + real option" where
  "swart_rho_product rhos (i1 # i2 # is) rho_product =
     (case mat_get rhos i1 i2 of
        Inl e \<Rightarrow> Inl e
      | Inr rho \<Rightarrow>
          swart_rho_product rhos (i2 # is)
            (case rho_product of
               None \<Rightarrow> None
             | Some p \<Rightarrow> (case rho of None \<Rightarrow> None | Some x \<Rightarrow> Some (p * x))))"
| "swart_rho_product rhos is rho_product = Inr rho_product"

definition swart_k :: "real option list list \<Rightarrow> primitive \<Rightarrow> error + real option" where
  "swart_k rhos prim =
     (case swart_rho_product rhos (inds prim) (Some 1) of
        Inl e \<Rightarrow> Inl e
      | Inr rho_product \<Rightarrow>
          (case getitem k_dict_swart (length (inds prim)) of
             Inl e \<Rightarrow> Inl e
           | Inr k \<Rightarrow> Inr (map_option (\<lambda>p. k * p) rho_product)))"

definition swart_guess ::
  "float_ops \<Rightarrow> radii \<Rightarrow> geom \<Rightarrow> error + real option list list" where
  "swart_guess fo cr g =
     (case get_pair_covalent_radii fo cr g of
        Inl e \<Rightarrow> Inl e
      | Inr pair_cov_radii \<Rightarrow>
     (let cdm = pdist fo (coords3d g) in
      case squareform (Some 0) (map (\<lambda>(r, r_cov). swart_rho r r_cov) (zip cdm pair_cov_radii)) of
        Inl e \<Rightarrow> Inl e
      | Inr rhos \<Rightarrow>
     (case collect (swart_k rhos) (prim_coords (internal g)) of
        Inl e \<Rightarrow> Inl e
      | Inr k_diag \<Rightarrow> Inr (diagflat (Some 0) k_diag))))"

subsection \<open>Notions for the statements\<close>

text \<open>
  The quantities the formulas of the models are written in, read from the geometry itself
  and not from the matrices the code builds: the distance \<open>r_ab\<close> of two atoms as
  \<^verbatim>\<open>pdist\<close> computes it for the pair (the row of the smaller index first), the tabulated
  covalent radius of an atom, and the rounded sum \<open>r_ab_cov\<close> for a pair.
\<close>

definition known :: "radii \<Rightarrow> geom \<Rightarrow> bool" where
  "known cr g = (\<forall>s \<in> set (atoms g). cr (lower s) \<noteq> None)"

definition natoms :: "geom \<Rightarrow> nat" where
  "natoms g = length (atom_seq g)"

definition distance :: "float_ops \<Rightarrow> geom \<Rightarrow> nat \<Rightarrow> nat \<Rightarrow> real" where
  "distance fo g a b = metric fo (coords3d g ! min a b) (coords3d g ! max a b)"

definition cov_radius :: "radii \<Rightarrow> geom \<Rightarrow> nat \<Rightarrow> real" where
  "cov_radius cr g a = the (cr (lower (atoms g ! a)))"

definition cov_sum :: "float_ops \<Rightarrow> radii \<Rightarrow> geom \<Rightarrow> nat \<Rightarrow> nat \<Rightarrow> real" where
  "cov_sum fo cr g a b = rnd fo (cov_radius cr g a + cov_radius cr g b)"

text \<open>
  Two atoms are bonded when they are distinct and their distance is at most the rounded
  product of the sum of their radii and the bond factor; the degree of an atom counts the
  atoms bonded to it.
\<close>

definition bonded :: "float_ops \<Rightarrow> radii \<Rightarrow> geom \<Rightarrow> nat \<Rightarrow> nat \<Rightarrow> bool" where
  "bonded fo cr g a b =
     (a \<noteq> b \<and> distance fo g a b \<le> rnd fo (cov_sum fo cr g a b * bond_factor (internal g)))"

definition degree :: "float_ops \<Rightarrow> radii \<Rightarrow> geom \<Rightarrow> nat \<Rightarrow> nat" where
  "degree fo cr g a = length (filter (bonded fo cr g a) [0..<natoms g])"

text \<open>
  The condensed vector of the radius sums and the three matrices \<^verbatim>\<open>dist_mat\<close>,
  \<^verbatim>\<open>pair_cov_radii_mat\<close> and \<^verbatim>\<open>bond_mat\<close> that the generators hold once every
  symbol has a radius.
\<close>

definition dist_mat_of :: "float_ops \<Rightarrow> geom \<Rightarrow> real list list" where
  "dist_mat_of fo g = square 0 (max (natoms g) 1) (pdist fo (coords3d g))"

definition cov_vec_of :: "float_ops \<Rightarrow> radii \<Rightarrow> geom \<Rightarrow> real list" where
  "cov_vec_of fo cr g =
     map (\<lambda>(a, b). rnd fo (the (cr (lower (fst a))) + the (cr (lower (fst b)))))
       (combinations2 (atom_seq g))"

definition cov_mat_of :: "float_ops \<Rightarrow> radii \<Rightarrow> geom \<Rightarrow> real list list" where
  "cov_mat_of fo cr g = square 0 (max (natoms g) 1) (cov_vec_of fo cr g)"

definition bond_mat_of :: "float_ops \<Rightarrow> radii \<Rightarrow> geom \<Rightarrow> bool list list" where
  "bond_mat_of fo cr g =
     square False (max (natoms g) 1)
       (map (\<lambda>(d, r). d \<le> rnd fo (r * bond_factor (internal g)))
          (zip (pdist fo (coords3d g)) (cov_vec_of fo cr g)))"

text \<open>
  The value \<^verbatim>\<open>bond_sum\<close> that \<^verbatim>\<open>fischer_guess\<close> stores for the central pair of a
  dihedral: the two degrees, less 2.
\<close>

definition bond_sum_of :: "float_ops \<Rightarrow> radii \<Rightarrow> geom \<Rightarrow> nat \<Rightarrow> nat \<Rightarrow> int" where
  "bond_sum_of fo cr g a b = int (degree fo cr g a) + int (degree fo cr g b) - 2"

subsection \<open>The chain-product models\<close>

text \<open>
  The consecutive pairs of an index tuple, and the parameter \<open>\<alpha>\<close> of the Lindh model in
  the words of the specification: 1 when both atoms are of the first period (H or He),
  0.3949 when exactly one is, 0.28 otherwise.
\<close>

definition consecutive :: "nat list \<Rightarrow> (nat \<times> nat) list" where
  "consecutive is = zip is (tl is)"

definition first_period_atom :: "geom \<Rightarrow> nat \<Rightarrow> bool" where
  "first_period_atom g a \<longleftrightarrow> lower (atoms g ! a) = ''h'' \<or> lower (atoms g ! a) = ''he''"

definition alpha :: "geom \<Rightarrow> nat \<Rightarrow> nat \<Rightarrow> real" where
  "alpha g a b =
     (if first_period_atom g a \<and> first_period_atom g b then 1
      else if first_period_atom g a \<noteq> first_period_atom g b then 0.3949
      else 0.28)"

text \<open>The pair functions \<open>\<rho>\<close> of the Lindh and of the Swart model.\<close>

definition lindh_rho :: "float_ops \<Rightarrow> radii \<Rightarrow> geom \<Rightarrow> nat \<Rightarrow> nat \<Rightarrow> real" where
  "lindh_rho fo cr g a b = exp (alpha g a b * ((cov_sum fo cr g a b)\<^sup>2 - (distance fo g a b)\<^sup>2))"

definition swart_rho_of :: "float_ops \<Rightarrow> radii \<Rightarrow> geom \<Rightarrow> nat \<Rightarrow> nat \<Rightarrow> real" where
  "swart_rho_of fo cr g a b = exp (1 - distance fo g a b / cov_sum fo cr g a b)"

text \<open>The matrices \<^verbatim>\<open>rhos\<close> that \<^verbatim>\<open>lindh_guess\<close> and \<^verbatim>\<open>swart_guess\<close> hold.\<close>

definition lindh_rhos_of :: "float_ops \<Rightarrow> radii \<Rightarrow> geom \<Rightarrow> real list list" where
  "lindh_rhos_of fo cr g =
     square 0 (max (natoms g) 1)
       (map (\<lambda>(a, b). exp (get_alpha (lower (fst a)) (lower (fst b))
                             * ((rnd fo (the (cr (lower (fst a))) + the (cr (lower (fst b)))))\<^sup>2
                                - (metric fo (snd a) (snd b))\<^sup>2)))
          (combinations2 (atom_seq g)))"

definition swart_rhos_of :: "float_ops \<Rightarrow> radii \<Rightarrow> geom \<Rightarrow> real option list list" where
  "swart_rhos_of fo cr g =
     square (Some 0) (max (natoms g) 1)
       (map (\<lambda>(a, b). swart_rho (metric fo (snd a) (snd b))
                         (rnd fo (the (cr (lower (fst a))) + the (cr (lower (fst b))))))
          (combinations2 (atom_seq g)))"

text \<open>
  The chain-product scheme in the words of the specification (section 4.4): the force
  constant of a primitive is the constant of its kind (bond, bend, dihedral) times the
  product of \<open>\<rho>\<close> over the consecutive pairs of atoms of its index tuple.
\<close>

definition k_types :: "real \<Rightarrow> real \<Rightarrow> real \<Rightarrow> nat \<Rightarrow> real" where
  "k_types k_bond k_bend k_tors n = (if n = 2 then k_bond else if n = 3 then k_bend else k_tors)"

definition chain_product :: "(nat \<Rightarrow> real) \<Rightarrow> (nat \<Rightarrow> nat \<Rightarrow> real) \<Rightarrow> primitive \<Rightarrow> real" where
  "chain_product k rho p =
     k (length (inds p)) * prod_list (map (\<lambda>(i, j). rho i j) (consecutive (inds p)))"


subsection \<open>Well-formed geometries\<close>

text \<open>
  Modelled from the spec: the invariants of the data model (sections 3 and 4.2 of the
  specification), which the class behind \<^verbatim>\<open>geom.internal\<close> maintains. A primitive
  has 2, 3 or 4 atom indices, all of them atoms of the geometry and no atom twice; the
  dihedrals that \<^verbatim>\<open>geom.internal.dihedrals\<close> lists are the primitives with four indices;
  the two central atoms of a dihedral are bonded. The radii are those of a table of
  covalent radii, so the sum for a pair is positive, and a geometry is non-degenerate when
  no two atoms have the distance 0.
\<close>

definition valid_prim :: "geom \<Rightarrow> primitive \<Rightarrow> bool" where
  "valid_prim g p \<longleftrightarrow>
     length (inds p) \<in> {2, 3, 4} \<and> distinct (inds p) \<and> (\<forall>i \<in> set (inds p). i < natoms g)"

definition valid_internal :: "geom \<Rightarrow> bool" where
  "valid_internal g \<longleftrightarrow>
     (\<forall>p \<in> set (prim_coords (internal g)). valid_prim g p) \<and>
     (\<forall>dh \<in> set (dihedrals (internal g)). valid_prim g dh \<and> length (inds dh) = 4) \<and>
     (\<forall>p \<in> set (prim_coords (internal g)).
        length (inds p) = 4 \<longrightarrow> p \<in> set (dihedrals (internal g)))"

definition positive_radii :: "float_ops \<Rightarrow> radii \<Rightarrow> geom \<Rightarrow> bool" where
  "positive_radii fo cr g \<longleftrightarrow>
     (\<forall>a < natoms g. \<forall>b < natoms g. a \<noteq> b \<longrightarrow> 0 < cov_sum fo cr g a b)"



subsection \<open>Exact arithmetic\<close>

text \<open>
  The arithmetic without rounding, with the Euclidean distance of the real numbers: the
  instance of \<open>fo\<close> on which the examples are computed.
\<close>

definition euclidean :: "vec3 \<Rightarrow> vec3 \<Rightarrow> real" where
  "euclidean p q =
     (case p of (x1, y1, z1) \<Rightarrow> case q of (x2, y2, z2) \<Rightarrow>
        sqrt ((x1 - x2)\<^sup>2 + (y1 - y2)\<^sup>2 + (z1 - z2)\<^sup>2))"

definition exact :: float_ops where
  "exact = \<lparr>rnd = (\<lambda>x. x), metric = euclidean\<rparr>"

subsection \<open>The float64 arithmetic\<close>

text \<open>Rounding to the nearest integer, a tie going to the even one.\<close>

definition rne :: "real \<Rightarrow> int" where
  "rne y =
     (let f = \<lfloor>y\<rfloor> in
      if y - of_int f < 1/2 then f
      else if 1/2 < y - of_int f then f + 1
      else if even f then f else f + 1)"

text \<open>
  IEEE 754 binary64 rounding to nearest, ties to even, of a real number in the normal
  range: 53 significant bits at the exponent of the number. Overflow to \<^verbatim>\<open>inf\<close> and the
  subnormal numbers are not modelled.
\<close>

definition round64 :: "real \<Rightarrow> real" where
  "round64 x =
     (if x = 0 then 0
      else sgn x * of_int (rne (\<bar>x\<bar> / 2 powr (of_int \<lfloor>log 2 \<bar>x\<bar>\<rfloor> - 52)))
             * 2 powr (of_int \<lfloor>log 2 \<bar>x\<bar>\<rfloor> - 52))"

text \<open>
  The Euclidean metric as the C kernel of scipy computes it: the differences, their
  squares and the running sum are rounded one by one, and so is the square root.
\<close>

definition euclidean64 :: "vec3 \<Rightarrow> vec3 \<Rightarrow> real" where
  "euclidean64 p q =
     (case p of (x1, y1, z1) \<Rightarrow> case q of (x2, y2, z2) \<Rightarrow>
        let dx = round64 (x1 - x2); dy = round64 (y1 - y2); dz = round64 (z1 - z2) in
        round64 (sqrt (round64 (round64 (round64 (dx * dx) + round64 (dy * dy))
                                + round64 (dz * dz)))))"

definition float64 :: float_ops where
  "float64 = \<lparr>rnd = round64, metric = euclidean64\<rparr>"

subsection \<open>Example data\<close>

text \<open>
  A small table of radii and geometries on which the theorems are instantiated: water with
  its two bonds and its bend, the same with other letter cases, and water with a symbol
  the table does not have.
\<close>

definition radii_ex :: radii where
  "radii_ex = [''h'' \<mapsto> 0.6, ''c'' \<mapsto> 1.4, ''o'' \<mapsto> 1.2]"

definition internal_h2o :: internal_coords where
  "internal_h2o =
     \<lparr>bond_factor = 1.3,
      prim_coords = [\<lparr>inds = [0, 1]\<rparr>, \<lparr>inds = [0, 2]\<rparr>, \<lparr>inds = [1, 0, 2]\<rparr>],
      dihedrals = []\<rparr>"

definition h2o :: geom where
  "h2o = \<lparr>atom_seq = [(''O'', (0, 0, 0)), (''H'', (1, 0, 0)), (''H'', (0, 1, 0))],
          internal = internal_h2o\<rparr>"

definition h2o_cases :: geom where
  "h2o_cases = \<lparr>atom_seq = [(''o'', (0, 0, 0)), (''h'', (1, 0, 0)), (''H'', (0, 1, 0))],
                internal = internal_h2o\<rparr>"

definition h2o_unknown :: geom where
  "h2o_unknown = \<lparr>atom_seq = [(''O'', (0, 0, 0)), (''Xx'', (1, 0, 0)), (''H'', (0, 1, 0))],
                  internal = internal_h2o\<rparr>"

text \<open>
  Two hydrogen atoms at the distance 1.56 with the radius 0.6 and the bond factor 1.3, as
  float64 reads these decimals: the coordinate, the radius and the bond factor are the
  float64 values nearest to 1.56, 0.6 and 1.3.
\<close>

definition radii_float :: radii where
  "radii_float = [''h'' \<mapsto> 5404319552844595 / 9007199254740992]"

definition h2_float :: geom where
  "h2_float =
     \<lparr>atom_seq = [(''H'', (0, 0, 0)), (''H'', (3512807709348987 / 2251799813685248, 0, 0))],
      internal = \<lparr>bond_factor = 5854679515581645 / 4503599627370496,
                  prim_coords = [\<lparr>inds = [0, 1]\<rparr>], dihedrals = []\<rparr>\<rparr>"

text \<open>
  Five atoms H-O-C(-H)-H with four bonds, four bends and the two dihedrals about the
  bond O-C.
\<close>

definition hoch2 :: geom where
  "hoch2 =
     \<lparr>atom_seq = [(''H'', (0, 2, 0)), (''O'', (0, 0, 0)), (''C'', (2, 0, 0)),
                  (''H'', (2, 0, 2)), (''H'', (2, 2, 0))],
      internal =
        \<lparr>bond_factor = 1.3,
         prim_coords =
           [\<lparr>inds = [0, 1]\<rparr>, \<lparr>inds = [1, 2]\<rparr>, \<lparr>inds = [2, 3]\<rparr>, \<lparr>inds = [2, 4]\<rparr>,
            \<lparr>inds = [0, 1, 2]\<rparr>, \<lparr>inds = [1, 2, 3]\<rparr>, \<lparr>inds = [1, 2, 4]\<rparr>, \<lparr>inds = [3, 2, 4]\<rparr>,
            \<lparr>inds = [0, 1, 2, 3]\<rparr>, \<lparr>inds = [0, 1, 2, 4]\<rparr>],
         dihedrals = [\<lparr>inds = [0, 1, 2, 3]\<rparr>, \<lparr>inds = [0, 1, 2, 4]\<rparr>]\<rparr>\<rparr>"

section \<open>Lemmas\<close>

subsection \<open>Collecting results\<close>

lemma collect_Inr_map:
  "(\<And>x. x \<in> set xs \<Longrightarrow> f x = Inr (h x)) \<Longrightarrow> collect f xs = Inr (map h xs)"
  by (induction xs) simp_all

lemma collect_Inr_length: "collect f xs = Inr ys \<Longrightarrow> length ys = length xs"
  by (induction xs arbitrary: ys) (auto split: sum.splits)

lemma collect_Inr_nth:
  "collect f xs = Inr ys \<Longrightarrow> i < length xs \<Longrightarrow> f (xs ! i) = Inr (ys ! i)"
proof (induction xs arbitrary: ys i)
  case Nil
  then show ?case by simp
next
  case (Cons x xs)
  then show ?case
    by (cases i) (auto split: sum.splits)
qed

subsection \<open>Diagonal matrices\<close>

lemma length_diagflat: "length (diagflat z xs) = length xs"
  by (simp add: diagflat_def)

lemma length_diagflat_row: "i < length xs \<Longrightarrow> length (diagflat z xs ! i) = length xs"
  by (simp add: diagflat_def)

lemma diagflat_nth:
  "i < length xs \<Longrightarrow> j < length xs \<Longrightarrow> diagflat z xs ! i ! j = (if i = j then xs ! i else z)"
  by (simp add: diagflat_def)

lemma diagflat_3: "diagflat z [a, b, c] = [[a, z, z], [z, b, z], [z, z, c]]"
  by (simp add: diagflat_def upt_rec)

subsection \<open>Condensed vectors and square forms\<close>

lemma length_combinations2: "2 * length (combinations2 xs) = length xs * (length xs - 1)"
proof (induction xs)
  case Nil
  then show ?case by simp
next
  case (Cons x xs)
  show ?case
  proof (cases xs)
    case Nil
    then show ?thesis by simp
  next
    case (Cons y ys)
    with Cons.IH show ?thesis by (simp add: algebra_simps)
  qed
qed

lemma cidx_combinations2:
  "i < j \<Longrightarrow> j < length xs \<Longrightarrow>
   cidx (length xs) i j < length (combinations2 xs) \<and>
   combinations2 xs ! cidx (length xs) i j = (xs ! i, xs ! j)"
proof (induction xs arbitrary: i j)
  case Nil
  then show ?case by simp
next
  case (Cons x xs)
  show ?case
  proof (cases i)
    case 0
    with Cons.prems show ?thesis
      by (cases j) (auto simp: nth_append)
  next
    case (Suc i')
    with Cons.prems obtain j' where j: "j = Suc j'" "i' < j'" "j' < length xs"
      by (cases j) auto
    from Cons.IH [OF j(2,3)] Suc j show ?thesis
      by (auto simp: nth_append)
  qed
qed

lemma pronic_strict_mono: "a < b \<Longrightarrow> Suc a * a < Suc b * b"
proof -
  assume "a < b"
  then have "Suc a \<le> b" by simp
  then have "Suc a * a \<le> b * a" by (rule mult_le_mono1)
  also have "b * a \<le> b * b" using \<open>a < b\<close> by simp
  also have "b * b < Suc b * b" using \<open>a < b\<close> by simp
  finally show ?thesis .
qed

lemma sq_dim_triangular:
  assumes "2 * len = n * (n - 1)"
  shows "sq_dim len = Some (max n 1)"
proof -
  define e where "e = max n 1 - 1"
  define L where "L = [1..<len + 2]"
  have d: "max n 1 = Suc e" by (simp add: e_def)
  have eq: "Suc e * e = 2 * len"
    using assms by (cases n) (simp_all add: e_def max_def)
  have "e \<le> Suc e * e div 2"
    by (cases e) simp_all
  then have bound: "e < len + 1" using eq by simp
  have len_L: "length L = len + 1" by (simp add: L_def)
  have nth: "L ! i = Suc i" if "i < len + 1" for i
  proof -
    have "[1..<len + 2] ! i = 1 + i"
      by (rule nth_upt) (use that in simp)
    then show ?thesis by (simp add: L_def)
  qed
  have "find (\<lambda>d. d * (d - 1) = 2 * len) L = Some (Suc e)"
    unfolding find_Some_iff
  proof (intro exI [of _ e] conjI allI impI)
    show "e < length L" using bound by (simp add: len_L)
    show "L ! e * (L ! e - 1) = 2 * len"
      using eq by (simp add: nth [OF bound])
    show "Suc e = L ! e" by (simp add: nth [OF bound])
  next
    fix j assume "j < e"
    then have "Suc j * j < Suc e * e" by (rule pronic_strict_mono)
    moreover have "L ! j = Suc j" using \<open>j < e\<close> bound by (intro nth) simp
    ultimately show "\<not> L ! j * (L ! j - 1) = 2 * len"
      using eq by simp
  qed
  then show ?thesis unfolding sq_dim_def d L_def .
qed

lemma length_square: "length (square z d v) = d"
  by (simp add: square_def)

lemma mat_get_square:
  "mat_get (square z d v) i j =
     (if i < d \<and> j < d
      then Inr (if i = j then z else if i < j then v ! cidx d i j else v ! cidx d j i)
      else Inl IndexError)"
proof (cases "i < d")
  case True
  then show ?thesis by (simp add: mat_get_def square_def)
next
  case False
  then show ?thesis by (simp add: mat_get_def square_def)
qed

lemma row_get_square:
  "row_get (square z d v) i =
     (if i < d
      then Inr (map (\<lambda>j. if i = j then z else if i < j then v ! cidx d i j else v ! cidx d j i)
                  [0..<d])
      else Inl IndexError)"
  by (simp add: row_get_def square_def)

lemma squareform_combinations2:
  "squareform z (map f (combinations2 xs)) =
     Inr (square z (max (length xs) 1) (map f (combinations2 xs)))"
  using sq_dim_triangular [OF length_combinations2, of xs]
  by (simp add: squareform_def)

lemma nth_map_combinations2:
  "i < j \<Longrightarrow> j < length xs \<Longrightarrow> map f (combinations2 xs) ! cidx (length xs) i j = f (xs ! i, xs ! j)"
  using cidx_combinations2 [of i j xs] by simp

lemma zip_combinations2:
  "length xs = length ys \<Longrightarrow>
   zip (combinations2 xs) (combinations2 ys) =
   map (\<lambda>((a, b), c, d). ((a, c), b, d)) (combinations2 (zip xs ys))"
proof (induction xs ys rule: list_induct2)
  case Nil
  then show ?case by simp
next
  case (Cons x xs y ys)
  have "length (combinations2 xs) = length (combinations2 ys)"
    using length_combinations2 [of xs] length_combinations2 [of ys] Cons.hyps by simp
  then show ?case
    using Cons by (simp add: zip_map_map zip_append)
qed

lemma euclidean_sym: "euclidean p q = euclidean q p"
  by (cases p; cases q) (simp add: euclidean_def power2_commute)

lemma euclidean_self: "euclidean p p = 0"
  by (cases p) (simp add: euclidean_def)

lemma euclidean_nonneg: "0 \<le> euclidean p q"
  by (cases p; cases q) (simp add: euclidean_def)

subsection \<open>Radii and vectors over the atom pairs\<close>

lemma combinations2_map:
  "combinations2 (map f xs) = map (\<lambda>(a, b). (f a, f b)) (combinations2 xs)"
  by (induction xs) simp_all

lemma collect_radius_known:
  "\<forall>s \<in> set xs. cr s \<noteq> None \<Longrightarrow> collect (radius cr) xs = Inr (map (\<lambda>s. the (cr s)) xs)"
  by (rule collect_Inr_map) (auto simp: radius_def)

lemma collect_radius_unknown:
  "find (\<lambda>s. cr s = None) xs = Some s \<Longrightarrow> collect (radius cr) xs = Inl (KeyError (KStr s))"
  by (induction xs) (auto simp: radius_def split: if_splits option.splits)

lemma collect_radius_Inr:
  "collect (radius cr) xs = Inr rs \<Longrightarrow> \<forall>s \<in> set xs. cr s \<noteq> None"
  by (induction xs arbitrary: rs) (auto simp: radius_def split: sum.splits option.splits)

lemma pdist_atom_seq:
  "pdist fo (coords3d g) = map (\<lambda>(a, b). metric fo (snd a) (snd b)) (combinations2 (atom_seq g))"
  by (simp add: pdist_def coords3d_def combinations2_map split_def)

lemma get_pair_covalent_radii_known:
  assumes "known cr g"
  shows "get_pair_covalent_radii fo cr g =
     Inr (map (\<lambda>(a, b). rnd fo (the (cr (lower (fst a))) + the (cr (lower (fst b)))))
            (combinations2 (atom_seq g)))"
proof -
  have "collect (radius cr) (map lower (atoms g)) = Inr (map (\<lambda>s. the (cr s)) (map lower (atoms g)))"
    using assms by (intro collect_radius_known) (simp add: known_def)
  then show ?thesis
    by (simp add: get_pair_covalent_radii_def atoms_def combinations2_map split_def)
qed

lemma get_pair_covalent_radii_unknown:
  assumes "find (\<lambda>s. cr s = None) (map lower (atoms g)) = Some s"
  shows "get_pair_covalent_radii fo cr g = Inl (KeyError (KStr s))"
  using collect_radius_unknown [OF assms] by (simp add: get_pair_covalent_radii_def)

lemma get_pair_covalent_radii_Inr:
  "get_pair_covalent_radii fo cr g = Inr p \<Longrightarrow> known cr g"
  by (auto simp: get_pair_covalent_radii_def known_def split: sum.splits dest!: collect_radius_Inr)

lemma nth_coords3d: "a < natoms g \<Longrightarrow> coords3d g ! a = snd (atom_seq g ! a)"
  by (simp add: coords3d_def natoms_def)

lemma nth_atoms: "a < natoms g \<Longrightarrow> atoms g ! a = fst (atom_seq g ! a)"
  by (simp add: atoms_def natoms_def)

text \<open>An entry of the square form of a condensed vector over the atom pairs.\<close>

lemma max_natoms: "a < natoms g \<Longrightarrow> max (natoms g) 1 = natoms g"
  by simp

lemma mat_get_square_pairs:
  assumes "a < natoms g" "b < natoms g"
  shows "mat_get (square z (natoms g) (map f (combinations2 (atom_seq g)))) a b =
     Inr (if a = b then z
          else if a < b then f (atom_seq g ! a, atom_seq g ! b)
          else f (atom_seq g ! b, atom_seq g ! a))"
  using assms unfolding mat_get_square
  by (auto simp: natoms_def nth_map_combinations2)

subsection \<open>The matrices of a geometry\<close>

lemma get_pair_cov_vec: "known cr g \<Longrightarrow> get_pair_covalent_radii fo cr g = Inr (cov_vec_of fo cr g)"
  by (simp add: get_pair_covalent_radii_known cov_vec_of_def)

lemma squareform_pdist: "squareform 0 (pdist fo (coords3d g)) = Inr (dist_mat_of fo g)"
  by (simp add: pdist_atom_seq squareform_combinations2 dist_mat_of_def natoms_def)

lemma squareform_cov_vec: "squareform 0 (cov_vec_of fo cr g) = Inr (cov_mat_of fo cr g)"
  by (simp add: cov_vec_of_def squareform_combinations2 cov_mat_of_def natoms_def)

lemma bond_vec_pairs:
  "map (\<lambda>(d, r). d \<le> rnd fo (r * bf)) (zip (pdist fo (coords3d g)) (cov_vec_of fo cr g)) =
   map (\<lambda>(a, b). metric fo (snd a) (snd b)
                  \<le> rnd fo (rnd fo (the (cr (lower (fst a))) + the (cr (lower (fst b)))) * bf))
     (combinations2 (atom_seq g))"
  by (simp add: pdist_atom_seq cov_vec_of_def zip_map_map zip_same_conv_map split_def)

lemma bond_mat_bond_mat_of:
  "bond_mat fo (pdist fo (coords3d g)) (cov_vec_of fo cr g) (bond_factor (internal g)) = Inr (bond_mat_of fo cr g)"
  unfolding bond_mat_def bond_mat_of_def bond_vec_pairs
  by (simp add: squareform_combinations2 natoms_def)

lemma mat_get_dist_mat:
  assumes "a < natoms g" "b < natoms g"
  shows "mat_get (dist_mat_of fo g) a b = Inr (if a = b then 0 else distance fo g a b)"
  unfolding dist_mat_of_def pdist_atom_seq max_natoms [OF assms(1)]
  using assms
  by (simp add: mat_get_square_pairs distance_def nth_coords3d min_def max_def)

lemma mat_get_cov_mat:
  assumes "a < natoms g" "b < natoms g"
  shows "mat_get (cov_mat_of fo cr g) a b = Inr (if a = b then 0 else cov_sum fo cr g a b)"
  unfolding cov_mat_of_def cov_vec_of_def max_natoms [OF assms(1)]
  using assms
  by (simp add: mat_get_square_pairs cov_sum_def cov_radius_def nth_atoms add.commute)

lemma mat_get_bond_mat:
  assumes "a < natoms g" "b < natoms g"
  shows "mat_get (bond_mat_of fo cr g) a b = Inr (bonded fo cr g a b)"
  unfolding bond_mat_of_def bond_vec_pairs max_natoms [OF assms(1)]
  using assms
  by (auto simp: mat_get_square_pairs bonded_def distance_def nth_coords3d cov_sum_def
      cov_radius_def nth_atoms add.commute min_def max_def)

lemma length_mats:
  "length (dist_mat_of fo g) = max (natoms g) 1"
  "length (cov_mat_of fo cr g) = max (natoms g) 1"
  "length (bond_mat_of fo cr g) = max (natoms g) 1"
  by (simp_all add: dist_mat_of_def cov_mat_of_def bond_mat_of_def length_square)

lemma mat_get_range:
  "mat_get (dist_mat_of fo g) a b = Inr x \<Longrightarrow> a < max (natoms g) 1 \<and> b < max (natoms g) 1"
  "mat_get (cov_mat_of fo cr g) a b = Inr x \<Longrightarrow> a < max (natoms g) 1 \<and> b < max (natoms g) 1"
  by (auto simp: dist_mat_of_def cov_mat_of_def mat_get_square split: if_splits)

lemma euclidean_on_x_axis: "euclidean (x, 0, 0) (y, 0, 0) = \<bar>x - y\<bar>"
  by (simp add: euclidean_def)

subsection \<open>The steps of fischer\_guess\<close>

lemma fischer_guess_known:
  assumes "known cr g"
  shows "fischer_guess fo cr g =
     (case tors_loop (bond_mat_of fo cr g) (central_atoms (dihedrals (internal g))) Map.empty of
        Inl e \<Rightarrow> Inl e
      | Inr t \<Rightarrow>
          (case collect (h_func (dist_mat_of fo g) (cov_mat_of fo cr g) t) (prim_coords (internal g)) of
             Inl e \<Rightarrow> Inl e
           | Inr h_diag \<Rightarrow> Inr (diagflat (Some 0) h_diag)))"
  unfolding fischer_guess_def Let_def get_pair_cov_vec [OF assms] sum.case
    bond_mat_bond_mat_of squareform_pdist squareform_cov_vec
  by (rule refl)

lemma fischer_guess_Inr:
  assumes "fischer_guess fo cr g = Inr H"
  obtains t h_diag where "known cr g"
    and "tors_loop (bond_mat_of fo cr g) (central_atoms (dihedrals (internal g))) Map.empty = Inr t"
    and "collect (h_func (dist_mat_of fo g) (cov_mat_of fo cr g) t) (prim_coords (internal g)) = Inr h_diag"
    and "H = diagflat (Some 0) h_diag"
proof -
  have k: "known cr g"
    using assms
    by (auto simp: fischer_guess_def Let_def dest: get_pair_covalent_radii_Inr split: sum.splits)
  from assms show ?thesis
    unfolding fischer_guess_known [OF k]
    by (auto split: sum.splits intro: that [OF k])
qed

lemma row_sum_map: "row_sum (map P xs) = int (length (filter P xs))"
  by (simp add: row_sum_def length_filter_map comp_def)

lemma row_sum_bond_mat:
  assumes "a < length (bond_mat_of fo cr g)"
  shows "row_sum (bond_mat_of fo cr g ! a) = int (degree fo cr g a)"
proof (cases "natoms g = 0")
  case True
  with assms show ?thesis
    by (simp add: bond_mat_of_def square_def degree_def row_sum_def)
next
  case False
  then have d: "max (natoms g) 1 = natoms g" by simp
  from assms have a: "a < natoms g" unfolding length_mats d .
  have "bond_mat_of fo cr g ! a = map (bonded fo cr g a) [0..<natoms g]"
  proof (rule nth_equalityI)
    show "length (bond_mat_of fo cr g ! a) = length (map (bonded fo cr g a) [0..<natoms g])"
      using a by (simp add: bond_mat_of_def square_def d)
  next
    fix j assume "j < length (bond_mat_of fo cr g ! a)"
    then have j: "j < natoms g" using a by (simp add: bond_mat_of_def square_def d)
    from mat_get_bond_mat [OF a j, of fo cr] a j
    show "bond_mat_of fo cr g ! a ! j = map (bonded fo cr g a) [0..<natoms g] ! j"
      by (simp add: mat_get_def split: if_splits)
  qed
  then show ?thesis by (simp add: row_sum_map degree_def)
qed

lemma tors_loop_sound:
  "tors_loop bm cs t0 = Inr t \<Longrightarrow> t k = Some v \<Longrightarrow>
   t0 k = Some v \<or>
   (\<exists>a b. k = (a, b) \<and> a < length bm \<and> b < length bm \<and>
      v = row_sum (bm ! a) + row_sum (bm ! b) - 2)"
proof (induction cs arbitrary: t0)
  case Nil
  then show ?case by simp
next
  case (Cons c cs)
  from Cons.prems(1) obtain a b where c: "c = [a, b]"
    and ab: "a < length bm" "b < length bm"
    and rest: "tors_loop bm cs (t0((a, b) \<mapsto> row_sum (bm ! a) + row_sum (bm ! b) - 2)) = Inr t"
    by (auto simp: row_get_def split: list.splits sum.splits if_splits)
  from Cons.IH [OF rest Cons.prems(2)] ab show ?case
    by (auto split: if_splits)
qed

lemma tors_atom_bonds_value:
  assumes "tors_loop (bond_mat_of fo cr g) cs Map.empty = Inr t" and "t (a, b) = Some v"
  shows "v = bond_sum_of fo cr g a b"
  using tors_loop_sound [OF assms] by (auto simp: row_sum_bond_mat bond_sum_of_def)

lemma tors_loop_succeeds:
  assumes "\<forall>c \<in> set cs. \<exists>a b. c = [a, b] \<and> a < length bm \<and> b < length bm"
  shows "\<exists>t. tors_loop bm cs t0 = Inr t \<and> (\<forall>a b. [a, b] \<in> set cs \<longrightarrow> t (a, b) \<noteq> None) \<and>
     (\<forall>k. t0 k \<noteq> None \<longrightarrow> t k \<noteq> None)"
  using assms
proof (induction cs arbitrary: t0)
  case Nil
  then show ?case by simp
next
  case (Cons c cs)
  then obtain a b where c: "c = [a, b]" and ab: "a < length bm" "b < length bm"
    by auto
  let ?t1 = "t0((a, b) \<mapsto> row_sum (bm ! a) + row_sum (bm ! b) - 2)"
  have "\<exists>t. tors_loop bm cs ?t1 = Inr t \<and> (\<forall>a b. [a, b] \<in> set cs \<longrightarrow> t (a, b) \<noteq> None) \<and>
     (\<forall>k. ?t1 k \<noteq> None \<longrightarrow> t k \<noteq> None)"
    by (rule Cons.IH) (use Cons.prems in simp)
  then obtain t where t: "tors_loop bm cs ?t1 = Inr t"
    "\<forall>a b. [a, b] \<in> set cs \<longrightarrow> t (a, b) \<noteq> None" "\<forall>k. ?t1 k \<noteq> None \<longrightarrow> t k \<noteq> None"
    by blast
  have "tors_loop bm (c # cs) t0 = Inr t"
    using t(1) ab by (simp add: c row_get_def)
  moreover have "t (a, b) \<noteq> None" using t(3) by simp
  moreover have "\<forall>k. t0 k \<noteq> None \<longrightarrow> t k \<noteq> None" using t(3) by (simp split: if_splits)
  ultimately show ?case using t(2) c by auto
qed

lemma natoms_from_distinct:
  assumes "a < max (natoms g) 1" "b < max (natoms g) 1" "a \<noteq> b"
  shows "a < natoms g \<and> b < natoms g"
  using assms by (cases "natoms g = 0") (auto simp: max_def split: if_splits)

lemma h_bend_range:
  assumes "h_bend (dist_mat_of fo g) (cov_mat_of fo cr g) b a c = Inr v"
  shows "a < max (natoms g) 1 \<and> b < max (natoms g) 1 \<and> c < max (natoms g) 1"
proof -
  from assms obtain r1 r2 where "mat_get (dist_mat_of fo g) a b = Inr r1"
    and "mat_get (dist_mat_of fo g) a c = Inr r2"
    by (auto simp: h_bend_def split: sum.splits)
  then show ?thesis using mat_get_range(1) by blast
qed

lemma fischer_bend_power: "0.11 / x powr (- 0.42) = 0.11 * x powr (0.42 :: real)"
proof -
  have "x powr (- 0.42) = inverse (x powr 0.42)" by (rule powr_minus)
  then show ?thesis by (simp only: divide_inverse inverse_inverse_eq)
qed

lemma h_bend_value:
  assumes "a < natoms g" "b < natoms g" "c < natoms g" "a \<noteq> b" "a \<noteq> c"
  shows "h_bend (dist_mat_of fo g) (cov_mat_of fo cr g) b a c =
     Inr (if cov_sum fo cr g a b * cov_sum fo cr g a c < 0 then None
          else Some (0.089 + 0.11 * (cov_sum fo cr g a b * cov_sum fo cr g a c) powr 0.42
                       * exp (- 0.44 * (distance fo g a b + distance fo g a c
                                        - cov_sum fo cr g a b - cov_sum fo cr g a c))))"
proof -
  have e: "mat_get (dist_mat_of fo g) a b = Inr (distance fo g a b)"
    "mat_get (dist_mat_of fo g) a c = Inr (distance fo g a c)"
    "mat_get (cov_mat_of fo cr g) a b = Inr (cov_sum fo cr g a b)"
    "mat_get (cov_mat_of fo cr g) a c = Inr (cov_sum fo cr g a c)"
    using assms by (simp_all add: mat_get_dist_mat mat_get_cov_mat)
  show ?thesis
    unfolding h_bend_def e sum.case fischer_bend_power by (rule refl)
qed

lemma fischer_entry:
  assumes "fischer_guess fo cr g = Inr H" and "k < length (prim_coords (internal g))"
  obtains t where
    "tors_loop (bond_mat_of fo cr g) (central_atoms (dihedrals (internal g))) Map.empty = Inr t"
    and "h_func (dist_mat_of fo g) (cov_mat_of fo cr g) t (prim_coords (internal g) ! k) = Inr (H ! k ! k)"
proof -
  from assms(1) obtain t h_diag where
    t: "tors_loop (bond_mat_of fo cr g) (central_atoms (dihedrals (internal g))) Map.empty = Inr t"
    and c: "collect (h_func (dist_mat_of fo g) (cov_mat_of fo cr g) t) (prim_coords (internal g)) = Inr h_diag"
    and H: "H = diagflat (Some 0) h_diag"
    by (rule fischer_guess_Inr)
  from collect_Inr_length [OF c] assms(2) have "k < length h_diag" by simp
  then have "H ! k ! k = h_diag ! k" by (simp add: H diagflat_nth)
  with collect_Inr_nth [OF c assms(2)] t show ?thesis by (auto intro: that)
qed

lemma h_bond_value:
  assumes "a < natoms g" "b < natoms g" "a \<noteq> b"
  shows "h_bond (dist_mat_of fo g) (cov_mat_of fo cr g) a b =
     Inr (Some (0.3601 * exp (- 1.944 * (distance fo g a b - cov_sum fo cr g a b))))"
proof -
  have e: "mat_get (dist_mat_of fo g) a b = Inr (distance fo g a b)"
    "mat_get (cov_mat_of fo cr g) a b = Inr (cov_sum fo cr g a b)"
    using assms by (simp_all add: mat_get_dist_mat mat_get_cov_mat)
  show ?thesis unfolding h_bond_def e sum.case by (rule refl)
qed

lemma h_dihedral_range:
  assumes "h_dihedral (dist_mat_of fo g) (cov_mat_of fo cr g) t a b = Inr v"
  shows "a < max (natoms g) 1 \<and> b < max (natoms g) 1"
proof -
  from assms obtain r where "mat_get (dist_mat_of fo g) a b = Inr r"
    by (auto simp: h_dihedral_def split: sum.splits)
  then show ?thesis using mat_get_range(1) by blast
qed

lemma h_dihedral_key:
  assumes "h_dihedral (dist_mat_of fo g) (cov_mat_of fo cr g) t a b = Inr v"
  shows "\<exists>bond_sum. t (a, b) = Some bond_sum"
  using assms by (auto simp: h_dihedral_def split: sum.splits option.splits)

lemma h_dihedral_value:
  assumes "a < natoms g" "b < natoms g" "a \<noteq> b" "t (a, b) = Some bond_sum"
  shows "h_dihedral (dist_mat_of fo g) (cov_mat_of fo cr g) t a b =
     Inr (if bond_sum < 0 \<or> distance fo g a b * cov_sum fo cr g a b = 0 then None
          else Some (0.0015 + 14.0 * (real_of_int bond_sum) powr 0.57
                                / (distance fo g a b * cov_sum fo cr g a b) ^ 4
                                * exp (- 2.85 * (distance fo g a b - cov_sum fo cr g a b))))"
proof -
  have e: "mat_get (dist_mat_of fo g) a b = Inr (distance fo g a b)"
    "mat_get (cov_mat_of fo cr g) a b = Inr (cov_sum fo cr g a b)"
    using assms by (simp_all add: mat_get_dist_mat mat_get_cov_mat)
  show ?thesis unfolding h_dihedral_def e sum.case assms(4) option.case by (rule refl)
qed

lemma bonded_sym: "bonded fo cr g a b = bonded fo cr g b a"
  by (auto simp: bonded_def distance_def cov_sum_def euclidean_sym add.commute)

lemma length_filter_except:
  assumes "distinct xs" "b \<in> set xs" "P b"
  shows "int (length (filter (\<lambda>j. P j \<and> j \<noteq> b) xs)) = int (length (filter P xs)) - 1"
proof -
  have "filter (\<lambda>j. P j \<and> j \<noteq> b) xs = removeAll b (filter P xs)"
    by (induction xs) auto
  also have "\<dots> = remove1 b (filter P xs)"
    using assms(1) by (simp add: distinct_remove1_removeAll)
  finally have "length (filter (\<lambda>j. P j \<and> j \<noteq> b) xs) = length (filter P xs) - 1"
    using assms(2,3) by (simp add: length_remove1)
  moreover have "b \<in> set (filter P xs)"
    using assms(2,3) by simp
  then have "0 < length (filter P xs)"
    by (rule length_pos_if_in_set)
  ultimately show ?thesis by (simp add: of_nat_diff Suc_leI)
qed

lemma degree_except:
  assumes "bonded fo cr g a b" "b < natoms g"
  shows "int (length (filter (\<lambda>j. bonded fo cr g a j \<and> j \<noteq> b) [0..<natoms g])) =
     int (degree fo cr g a) - 1"
  unfolding degree_def
  by (rule length_filter_except) (use assms in simp_all)


lemma collect_total:
  "(\<And>x. x \<in> set xs \<Longrightarrow> \<exists>y. f x = Inr y) \<Longrightarrow> \<exists>ys. collect f xs = Inr ys"
proof (induction xs)
  case Nil
  then show ?case by simp
next
  case (Cons x xs)
  from Cons.prems [of x] obtain y where "f x = Inr y" by auto
  moreover from Cons.IH Cons.prems obtain ys where "collect f xs = Inr ys" by auto
  ultimately show ?case by simp
qed

lemma valid_prim_cases:
  assumes "valid_prim g p"
  obtains (bond) a b where "inds p = [a, b]" "a \<noteq> b" "a < natoms g" "b < natoms g"
  | (bend) b a c where "inds p = [b, a, c]" "a \<noteq> b" "a \<noteq> c" "b \<noteq> c"
      "a < natoms g" "b < natoms g" "c < natoms g"
  | (dihedral) c a b d where "inds p = [c, a, b, d]" "a \<noteq> b"
      "a < natoms g" "b < natoms g" "c < natoms g" "d < natoms g" "distinct [c, a, b, d]"
proof -
  from assms consider "length (inds p) = 2" | "length (inds p) = 3" | "length (inds p) = 4"
    by (auto simp: valid_prim_def)
  then show ?thesis
  proof cases
    case 1
    then obtain a b where "inds p = [a, b]"
      by (auto simp: eval_nat_numeral length_Suc_conv)
    with assms show ?thesis by (intro bond [of a b]) (auto simp: valid_prim_def)
  next
    case 2
    then obtain b a c where "inds p = [b, a, c]"
      by (auto simp: eval_nat_numeral length_Suc_conv)
    with assms show ?thesis by (intro bend [of b a c]) (auto simp: valid_prim_def)
  next
    case 3
    then obtain c a b d where "inds p = [c, a, b, d]"
      by (auto simp: eval_nat_numeral length_Suc_conv)
    with assms show ?thesis by (intro dihedral [of c a b d]) (auto simp: valid_prim_def)
  qed
qed

lemma tors_loop_valid:
  assumes "valid_internal g"
  shows "\<exists>t. tors_loop (bond_mat_of fo cr g) (central_atoms (dihedrals (internal g))) Map.empty = Inr t \<and>
     (\<forall>p \<in> set (prim_coords (internal g)). \<forall>c a b d.
        inds p = [c, a, b, d] \<longrightarrow> t (a, b) \<noteq> None)"
proof -
  let ?cs = "central_atoms (dihedrals (internal g))"
  have cs: "\<exists>a b. c = [a, b] \<and> a < length (bond_mat_of fo cr g) \<and> b < length (bond_mat_of fo cr g)"
    if "c \<in> set ?cs" for c
  proof -
    from that obtain dh where dh: "dh \<in> set (dihedrals (internal g))"
      and c: "c = take 2 (drop 1 (inds dh))"
      by (auto simp: central_atoms_def)
    from dh assms have v: "valid_prim g dh" and l: "length (inds dh) = 4"
      by (auto simp: valid_internal_def)
    from l obtain e a b d where i: "inds dh = [e, a, b, d]"
      by (auto simp: eval_nat_numeral length_Suc_conv)
    with v have "a < natoms g" "b < natoms g" by (auto simp: valid_prim_def)
    then show ?thesis by (simp add: c i length_mats)
  qed
  then have "\<forall>c \<in> set ?cs. \<exists>a b. c = [a, b] \<and> a < length (bond_mat_of fo cr g)
      \<and> b < length (bond_mat_of fo cr g)"
    by blast
  from tors_loop_succeeds [OF this, of Map.empty] obtain t
    where t: "tors_loop (bond_mat_of fo cr g) ?cs Map.empty = Inr t"
      and keys: "\<forall>a b. [a, b] \<in> set ?cs \<longrightarrow> t (a, b) \<noteq> None"
    by blast
  have "t (a, b) \<noteq> None"
    if "p \<in> set (prim_coords (internal g))" "inds p = [c, a, b, d]" for p c a b d
  proof -
    from that assms have "p \<in> set (dihedrals (internal g))"
      by (simp add: valid_internal_def)
    then have "take 2 (drop 1 (inds p)) \<in> set ?cs"
      by (auto simp: central_atoms_def)
    then have "[a, b] \<in> set ?cs" by (simp add: that(2))
    with keys show ?thesis by blast
  qed
  with t show ?thesis by blast
qed

lemma h_func_valid:
  assumes "valid_prim g p" and "\<And>c a b d. inds p = [c, a, b, d] \<Longrightarrow> t (a, b) \<noteq> None"
  shows "\<exists>v. h_func (dist_mat_of fo g) (cov_mat_of fo cr g) t p = Inr v"
  using assms(1)
proof (cases rule: valid_prim_cases)
  case (bond a b)
  then show ?thesis by (simp add: h_func_def h_bond_value)
next
  case (bend b a c)
  then show ?thesis by (simp add: h_func_def h_bend_value)
next
  case (dihedral c a b d)
  from assms(2) [OF dihedral(1)] obtain bs where "t (a, b) = Some bs" by auto
  with dihedral show ?thesis
    using h_dihedral_value [where a = a and b = b and g = g and t = t and bond_sum = bs and cr = cr and fo = fo] by (simp add: h_func_def)
qed

lemma fischer_guess_valid:
  assumes "known cr g" "valid_internal g"
  shows "\<exists>h_diag. fischer_guess fo cr g = Inr (diagflat (Some 0) h_diag) \<and>
     length h_diag = length (prim_coords (internal g))"
proof -
  from tors_loop_valid [OF assms(2), where cr = cr and fo = fo] obtain t
    where t: "tors_loop (bond_mat_of fo cr g) (central_atoms (dihedrals (internal g))) Map.empty = Inr t"
      and keys: "\<forall>p \<in> set (prim_coords (internal g)). \<forall>c a b d.
        inds p = [c, a, b, d] \<longrightarrow> t (a, b) \<noteq> None"
    by blast
  have "\<exists>h_diag. collect (h_func (dist_mat_of fo g) (cov_mat_of fo cr g) t) (prim_coords (internal g))
      = Inr h_diag"
  proof (rule collect_total)
    fix p assume p: "p \<in> set (prim_coords (internal g))"
    with assms(2) have "valid_prim g p" by (simp add: valid_internal_def)
    then show "\<exists>y. h_func (dist_mat_of fo g) (cov_mat_of fo cr g) t p = Inr y"
      by (rule h_func_valid) (use keys p in blast)
  qed
  then obtain h_diag where
    c: "collect (h_func (dist_mat_of fo g) (cov_mat_of fo cr g) t) (prim_coords (internal g)) = Inr h_diag"
    ..
  have "fischer_guess fo cr g = Inr (diagflat (Some 0) h_diag)"
    by (simp add: fischer_guess_known [OF assms(1)] t c)
  with collect_Inr_length [OF c] show ?thesis by blast
qed

lemma cov_sum_pos:
  "positive_radii fo cr g \<Longrightarrow> a < natoms g \<Longrightarrow> b < natoms g \<Longrightarrow> a \<noteq> b \<Longrightarrow>
   0 < cov_sum fo cr g a b"
  by (simp add: positive_radii_def)






subsection \<open>The steps of lindh\_guess and swart\_guess\<close>

lemma get_alpha_sym: "get_alpha s t = get_alpha t s"
  by (auto simp: get_alpha_def)

lemma get_alpha_alpha:
  "get_alpha (lower (atoms g ! a)) (lower (atoms g ! b)) = alpha g a b"
  by (auto simp: get_alpha_def alpha_def first_period_atom_def first_period_def)

lemma lindh_vec_pairs:
  "map (\<lambda>(alpha, r_cov, r). exp (alpha * (r_cov\<^sup>2 - r\<^sup>2)))
     (zip (map (\<lambda>(a1, a2). get_alpha a1 a2) (combinations2 (map lower (atoms g))))
        (zip (cov_vec_of fo cr g) (pdist fo (coords3d g)))) =
   map (\<lambda>(a, b). exp (get_alpha (lower (fst a)) (lower (fst b))
                         * ((rnd fo (the (cr (lower (fst a))) + the (cr (lower (fst b)))))\<^sup>2
                            - (metric fo (snd a) (snd b))\<^sup>2)))
     (combinations2 (atom_seq g))"
  by (simp add: pdist_atom_seq cov_vec_of_def atoms_def combinations2_map zip_map_map
      zip_same_conv_map split_def)

lemma swart_vec_pairs:
  "map (\<lambda>(r, r_cov). swart_rho r r_cov) (zip (pdist fo (coords3d g)) (cov_vec_of fo cr g)) =
   map (\<lambda>(a, b). swart_rho (metric fo (snd a) (snd b))
                     (rnd fo (the (cr (lower (fst a))) + the (cr (lower (fst b))))))
     (combinations2 (atom_seq g))"
  by (simp add: pdist_atom_seq cov_vec_of_def zip_map_map zip_same_conv_map split_def)

lemma lindh_guess_known:
  assumes "known cr g"
  shows "lindh_guess fo cr g =
     (case collect (lindh_k (lindh_rhos_of fo cr g)) (prim_coords (internal g)) of
        Inl e \<Rightarrow> Inl e
      | Inr k_diag \<Rightarrow> Inr (diagflat 0 k_diag))"
  unfolding lindh_guess_def Let_def get_pair_cov_vec [OF assms] sum.case lindh_vec_pairs
    squareform_combinations2 lindh_rhos_of_def natoms_def
  by (rule refl)

lemma swart_guess_known:
  assumes "known cr g"
  shows "swart_guess fo cr g =
     (case collect (swart_k (swart_rhos_of fo cr g)) (prim_coords (internal g)) of
        Inl e \<Rightarrow> Inl e
      | Inr k_diag \<Rightarrow> Inr (diagflat (Some 0) k_diag))"
  unfolding swart_guess_def Let_def get_pair_cov_vec [OF assms] sum.case swart_vec_pairs
    squareform_combinations2 swart_rhos_of_def natoms_def
  by (rule refl)

lemma mat_get_lindh_rhos:
  assumes "a < natoms g" "b < natoms g"
  shows "mat_get (lindh_rhos_of fo cr g) a b = Inr (if a = b then 0 else lindh_rho fo cr g a b)"
  unfolding lindh_rhos_of_def max_natoms [OF assms(1)]
  using assms get_alpha_sym [of "lower (fst (atom_seq g ! a))" "lower (fst (atom_seq g ! b))"]
  by (simp add: mat_get_square_pairs lindh_rho_def get_alpha_alpha [symmetric] cov_sum_def
      cov_radius_def distance_def nth_atoms nth_coords3d min_def max_def add.commute)

lemma mat_get_swart_rhos:
  assumes "a < natoms g" "b < natoms g"
  shows "mat_get (swart_rhos_of fo cr g) a b =
     Inr (if a = b then Some 0 else swart_rho (distance fo g a b) (cov_sum fo cr g a b))"
  unfolding swart_rhos_of_def max_natoms [OF assms(1)]
  using assms
  by (simp add: mat_get_square_pairs cov_sum_def cov_radius_def distance_def nth_atoms
      nth_coords3d min_def max_def add.commute)

lemma mat_get_rhos_range:
  "mat_get (lindh_rhos_of fo cr g) a b = Inr x \<Longrightarrow> a < max (natoms g) 1 \<and> b < max (natoms g) 1"
  "mat_get (swart_rhos_of fo cr g) a b = Inr y \<Longrightarrow> a < max (natoms g) 1 \<and> b < max (natoms g) 1"
  by (auto simp: lindh_rhos_of_def swart_rhos_of_def mat_get_square split: if_splits)

lemma consecutive_simps:
  "consecutive [] = []" "consecutive [x] = []"
  "consecutive (x # y # zs) = (x, y) # consecutive (y # zs)"
  by (simp_all add: consecutive_def)

lemma consecutive_distinct:
  "distinct is \<Longrightarrow> (i, j) \<in> set (consecutive is) \<Longrightarrow> i \<noteq> j \<and> i \<in> set is \<and> j \<in> set is"
  by (induction "is" rule: induct_list012) (auto simp: consecutive_simps)

lemma lindh_rho_product_eq:
  "(\<And>i j. (i, j) \<in> set (consecutive is) \<Longrightarrow> mat_get rhos i j = Inr (r i j)) \<Longrightarrow>
   lindh_rho_product rhos is acc = Inr (acc * prod_list (map (\<lambda>(i, j). r i j) (consecutive is)))"
proof (induction "is" arbitrary: acc rule: induct_list012)
  case 1
  then show ?case by (simp add: consecutive_simps)
next
  case (2 x)
  then show ?case by (simp add: consecutive_simps)
next
  case (3 x y zs)
  have "mat_get rhos x y = Inr (r x y)"
    by (rule "3.prems") (simp add: consecutive_simps)
  moreover have "lindh_rho_product rhos (y # zs) (acc * r x y) =
      Inr (acc * r x y * prod_list (map (\<lambda>(i, j). r i j) (consecutive (y # zs))))"
    by (rule "3.IH"(2)) (simp add: "3.prems" consecutive_simps)
  ultimately show ?case by (simp add: consecutive_simps mult.assoc)
qed

lemma lindh_rho_product_Inr:
  "lindh_rho_product rhos is acc = Inr v \<Longrightarrow> (i, j) \<in> set (consecutive is) \<Longrightarrow>
   \<exists>x. mat_get rhos i j = Inr x"
proof (induction "is" arbitrary: acc rule: induct_list012)
  case 1
  then show ?case by (simp add: consecutive_simps)
next
  case (2 x)
  then show ?case by (simp add: consecutive_simps)
next
  case (3 x y zs)
  from "3.prems"(1) obtain rho where m: "mat_get rhos x y = Inr rho"
    and rest: "lindh_rho_product rhos (y # zs) (acc * rho) = Inr v"
    by (auto split: sum.splits)
  from "3.prems"(2) consider "(i, j) = (x, y)" | "(i, j) \<in> set (consecutive (y # zs))"
    by (auto simp: consecutive_simps)
  then show ?case
  proof cases
    case 1
    with m show ?thesis by auto
  next
    case 2
    from "3.IH"(2) [OF rest this] show ?thesis .
  qed
qed

lemma swart_rho_product_eq:
  "(\<And>i j. (i, j) \<in> set (consecutive is) \<Longrightarrow> mat_get rhos i j = Inr (Some (r i j))) \<Longrightarrow>
   swart_rho_product rhos is (Some acc) =
     Inr (Some (acc * prod_list (map (\<lambda>(i, j). r i j) (consecutive is))))"
proof (induction "is" arbitrary: acc rule: induct_list012)
  case 1
  then show ?case by (simp add: consecutive_simps)
next
  case (2 x)
  then show ?case by (simp add: consecutive_simps)
next
  case (3 x y zs)
  have "mat_get rhos x y = Inr (Some (r x y))"
    by (rule "3.prems") (simp add: consecutive_simps)
  moreover have "swart_rho_product rhos (y # zs) (Some (acc * r x y)) =
      Inr (Some (acc * r x y * prod_list (map (\<lambda>(i, j). r i j) (consecutive (y # zs)))))"
    by (rule "3.IH"(2)) (simp add: "3.prems" consecutive_simps)
  ultimately show ?case by (simp add: consecutive_simps mult.assoc)
qed

lemma getitem_k_lindh:
  "getitem k_dict_lindh n = Inr k \<Longrightarrow> n \<in> {2, 3, 4} \<and> k = k_types 0.45 0.15 0.005 n"
  by (auto simp: getitem_def k_dict_lindh_def k_types_def split: if_splits)

lemma getitem_k_lindh_kind:
  "n \<in> {2, 3, 4} \<Longrightarrow> getitem k_dict_lindh n = Inr (k_types 0.45 0.15 0.005 n)"
  by (auto simp: getitem_def k_dict_lindh_def k_types_def)

lemma getitem_k_swart_kind:
  "n \<in> {2, 3, 4} \<Longrightarrow> getitem k_dict_swart n = Inr (k_types 0.35 0.15 0.005 n)"
  by (auto simp: getitem_def k_dict_swart_def k_types_def)

lemma lindh_guess_Inr:
  assumes "lindh_guess fo cr g = Inr H"
  obtains k_diag where "known cr g"
    and "collect (lindh_k (lindh_rhos_of fo cr g)) (prim_coords (internal g)) = Inr k_diag"
    and "H = diagflat 0 k_diag"
proof -
  have k: "known cr g"
    using assms
    by (auto simp: lindh_guess_def Let_def dest: get_pair_covalent_radii_Inr split: sum.splits)
  from assms show ?thesis
    unfolding lindh_guess_known [OF k]
    by (auto split: sum.splits intro: that [OF k])
qed

lemma lindh_pairs_in_range:
  assumes "lindh_rho_product (lindh_rhos_of fo cr g) is acc = Inr v"
    and "(i, j) \<in> set (consecutive is)" and "i \<noteq> j"
  shows "i < natoms g \<and> j < natoms g"
proof -
  from lindh_rho_product_Inr [OF assms(1,2)] obtain x
    where "mat_get (lindh_rhos_of fo cr g) i j = Inr x" ..
  from mat_get_rhos_range(1) [OF this] assms(3) show ?thesis
    using natoms_from_distinct [of i g j] by blast
qed

lemma lindh_k_value:
  assumes "lindh_k (lindh_rhos_of fo cr g) p = Inr v"
    and "\<forall>(i, j) \<in> set (consecutive (inds p)). i \<noteq> j"
  shows "length (inds p) \<in> {2, 3, 4} \<and>
     v = chain_product (k_types 0.45 0.15 0.005) (lindh_rho fo cr g) p"
proof -
  from assms(1) obtain rp k where
    rp: "lindh_rho_product (lindh_rhos_of fo cr g) (inds p) 1 = Inr rp"
    and k: "getitem k_dict_lindh (length (inds p)) = Inr k" and v: "v = k * rp"
    by (auto simp: lindh_k_def split: sum.splits)
  have "mat_get (lindh_rhos_of fo cr g) i j = Inr (lindh_rho fo cr g i j)"
    if "(i, j) \<in> set (consecutive (inds p))" for i j
  proof -
    from that assms(2) have "i \<noteq> j" by auto
    with lindh_pairs_in_range [OF rp that] show ?thesis
      by (simp add: mat_get_lindh_rhos)
  qed
  from lindh_rho_product_eq [of "inds p" "lindh_rhos_of fo cr g" "lindh_rho fo cr g" 1, OF this] rp
  have "rp = prod_list (map (\<lambda>(i, j). lindh_rho fo cr g i j) (consecutive (inds p)))"
    by simp
  with getitem_k_lindh [OF k] v show ?thesis by (simp add: chain_product_def)
qed

lemma valid_prim_pairs:
  assumes "valid_prim g p" "(i, j) \<in> set (consecutive (inds p))"
  shows "i \<noteq> j \<and> i < natoms g \<and> j < natoms g"
  using assms consecutive_distinct [of "inds p" i j] by (auto simp: valid_prim_def)

lemma lindh_k_valid:
  assumes "valid_prim g p"
  shows "lindh_k (lindh_rhos_of fo cr g) p =
     Inr (chain_product (k_types 0.45 0.15 0.005) (lindh_rho fo cr g) p)"
proof -
  have "mat_get (lindh_rhos_of fo cr g) i j = Inr (lindh_rho fo cr g i j)"
    if "(i, j) \<in> set (consecutive (inds p))" for i j
    using valid_prim_pairs [OF assms that] by (simp add: mat_get_lindh_rhos)
  from lindh_rho_product_eq [of "inds p" "lindh_rhos_of fo cr g" "lindh_rho fo cr g" 1, OF this]
  have "lindh_rho_product (lindh_rhos_of fo cr g) (inds p) 1 =
      Inr (prod_list (map (\<lambda>(i, j). lindh_rho fo cr g i j) (consecutive (inds p))))"
    by simp
  moreover from assms have "length (inds p) \<in> {2, 3, 4}" by (simp add: valid_prim_def)
  ultimately show ?thesis
    by (simp add: lindh_k_def getitem_k_lindh_kind chain_product_def)
qed

lemma lindh_guess_valid:
  assumes "known cr g" "\<forall>p \<in> set (prim_coords (internal g)). valid_prim g p"
  shows "lindh_guess fo cr g =
     Inr (diagflat 0 (map (chain_product (k_types 0.45 0.15 0.005) (lindh_rho fo cr g))
                        (prim_coords (internal g))))"
proof -
  have "collect (lindh_k (lindh_rhos_of fo cr g)) (prim_coords (internal g)) =
      Inr (map (chain_product (k_types 0.45 0.15 0.005) (lindh_rho fo cr g))
             (prim_coords (internal g)))"
    using assms(2) by (intro collect_Inr_map) (simp add: lindh_k_valid)
  then show ?thesis by (simp add: lindh_guess_known [OF assms(1)])
qed

lemma swart_rho_positive:
  "0 < r_cov \<Longrightarrow> swart_rho r r_cov = Some (exp (1 - r / r_cov))"
  by (simp add: swart_rho_def)

lemma swart_k_valid:
  assumes "valid_prim g p" "positive_radii fo cr g"
  shows "swart_k (swart_rhos_of fo cr g) p =
     Inr (Some (chain_product (k_types 0.35 0.15 0.005) (swart_rho_of fo cr g) p))"
proof -
  have "mat_get (swart_rhos_of fo cr g) i j = Inr (Some (swart_rho_of fo cr g i j))"
    if "(i, j) \<in> set (consecutive (inds p))" for i j
  proof -
    from valid_prim_pairs [OF assms(1) that] have ij: "i \<noteq> j" "i < natoms g" "j < natoms g"
      by simp_all
    with assms(2) have "0 < cov_sum fo cr g i j" by (simp add: cov_sum_pos)
    with ij show ?thesis
      by (simp add: mat_get_swart_rhos swart_rho_positive swart_rho_of_def)
  qed
  from swart_rho_product_eq [of "inds p" "swart_rhos_of fo cr g" "swart_rho_of fo cr g" 1, OF this]
  have "swart_rho_product (swart_rhos_of fo cr g) (inds p) (Some 1) =
      Inr (Some (prod_list (map (\<lambda>(i, j). swart_rho_of fo cr g i j) (consecutive (inds p)))))"
    by simp
  moreover from assms have "length (inds p) \<in> {2, 3, 4}" by (simp add: valid_prim_def)
  ultimately show ?thesis
    by (simp add: swart_k_def getitem_k_swart_kind chain_product_def)
qed

lemma swart_guess_valid:
  assumes "known cr g" "\<forall>p \<in> set (prim_coords (internal g)). valid_prim g p"
    and "positive_radii fo cr g"
  shows "swart_guess fo cr g =
     Inr (diagflat (Some 0)
            (map (\<lambda>p. Some (chain_product (k_types 0.35 0.15 0.005) (swart_rho_of fo cr g) p))
               (prim_coords (internal g))))"
proof -
  have "collect (swart_k (swart_rhos_of fo cr g)) (prim_coords (internal g)) =
      Inr (map (\<lambda>p. Some (chain_product (k_types 0.35 0.15 0.005) (swart_rho_of fo cr g) p))
             (prim_coords (internal g)))"
    using assms(2,3) by (intro collect_Inr_map) (simp add: swart_k_valid)
  then show ?thesis by (simp add: swart_guess_known [OF assms(1)])
qed







subsection \<open>Rounding to float64\<close>

lemma rne_eqI:
  assumes "\<bar>y - of_int m\<bar> < 1/2"
  shows "rne y = m"
proof (cases "of_int m \<le> y")
  case True
  with assms have "\<lfloor>y\<rfloor> = m" by (intro floor_unique) auto
  with assms True show ?thesis by (simp add: rne_def)
next
  case False
  with assms have f: "\<lfloor>y\<rfloor> = m - 1" by (intro floor_unique) auto
  from False assms have "1/2 < y - of_int (m - 1)" by auto
  with f show ?thesis by (simp add: rne_def)
qed

lemma round64_0: "round64 0 = 0"
  by (simp add: round64_def)

lemma round64_minus: "round64 (- x) = - round64 x"
  by (simp add: round64_def sgn_minus)

lemma round64_eqI:
  assumes "2 powr (of_int e) \<le> x" and "x < 2 powr (of_int e + 1)"
    and "\<bar>x / 2 powr (of_int e - 52) - of_int m\<bar> < 1/2"
  shows "round64 x = of_int m * 2 powr (of_int e - 52)"
proof -
  have pos: "0 < x" using assms(1) by (rule less_le_trans [rotated]) simp
  have "of_int e \<le> log 2 x" using assms(1) pos by (simp add: le_log_iff)
  moreover have "log 2 x < of_int e + 1" using assms(2) pos by (simp add: log_less_iff)
  ultimately have e: "\<lfloor>log 2 x\<rfloor> = e" by (intro floor_unique) auto
  from pos have a: "\<bar>x\<bar> = x" "sgn x = 1" "x \<noteq> 0" by simp_all
  show ?thesis
    using rne_eqI [OF assms(3)] by (simp add: round64_def a e)
qed

lemma round64_binade0:
  assumes "1 \<le> x" "x < 2" "\<bar>x * 2 ^ 52 - of_int m\<bar> < 1/2"
  shows "round64 x = of_int m / 2 ^ 52"
proof -
  have "(2::real) powr (- 52) = 1 / 2 powr 52" by (rule powr_minus_divide)
  then have p: "(2::real) powr (- 52) = 1 / 2 ^ 52" by simp
  have "round64 x = of_int m * 2 powr (of_int 0 - 52)"
    by (rule round64_eqI) (use assms in \<open>simp_all add: p\<close>)
  then show ?thesis by (simp add: p)
qed

lemma round64_binade1:
  assumes "2 \<le> x" "x < 4" "\<bar>x * 2 ^ 51 - of_int m\<bar> < 1/2"
  shows "round64 x = of_int m / 2 ^ 51"
proof -
  have "(2::real) powr (- 51) = 1 / 2 powr 51" by (rule powr_minus_divide)
  then have p: "(2::real) powr (- 51) = 1 / 2 ^ 51" by simp
  have "round64 x = of_int m * 2 powr (of_int 1 - 52)"
    by (rule round64_eqI) (use assms in \<open>simp_all add: p\<close>)
  then show ?thesis by (simp add: p)
qed

lemma round64_sum:
  "round64 (5404319552844595 / 4503599627370496) = 5404319552844595 / 4503599627370496"
  using round64_binade0 [of "5404319552844595 / 4503599627370496" 5404319552844595]
  by simp

lemma round64_product:
  "round64 (31640558981696605771285719458775 / 20282409603651670423947251286016)
     = 3512807709348987 / 2251799813685248"
  using round64_binade0 [of "31640558981696605771285719458775 / 20282409603651670423947251286016"
      7025615418697974]
  by simp

lemma round64_d: "round64 (3512807709348987 / 2251799813685248) = 3512807709348987 / 2251799813685248"
  using round64_binade0 [of "3512807709348987 / 2251799813685248" 7025615418697974]
  by simp

lemma round64_d_squared:
  "round64 (12339818002861677129003357926169 / 5070602400912917605986812821504)
     = 1369995006646105 / 562949953421312"
  using round64_binade1 [of "12339818002861677129003357926169 / 5070602400912917605986812821504"
      5479980026584420]
  by simp

lemma round64_s: "round64 (1369995006646105 / 562949953421312) = 1369995006646105 / 562949953421312"
  using round64_binade1 [of "1369995006646105 / 562949953421312" 5479980026584420]
  by simp

lemma round64_sqrt:
  "round64 (sqrt (1369995006646105 / 562949953421312)) = 3512807709348987 / 2251799813685248"
proof -
  define y :: real where "y = sqrt (1369995006646105 / 562949953421312)"
  have "(14051230837395947 / 9007199254740992)\<^sup>2 < (1369995006646105 / 562949953421312 :: real)"
    by (simp add: power2_eq_square)
  then have l: "14051230837395947 / 9007199254740992 < y"
    unfolding y_def by (rule real_less_rsqrt)
  have "(1369995006646105 / 562949953421312 :: real) < (14051230837395949 / 9007199254740992)\<^sup>2"
    by (simp add: power2_eq_square)
  then have h: "y < 14051230837395949 / 9007199254740992"
    unfolding y_def by (intro real_less_lsqrt) simp_all
  have "round64 y = of_int 7025615418697974 / 2 ^ 52"
  proof (rule round64_binade0)
    show "1 \<le> y" using l by simp
    show "y < 2" using h by simp
    define z where "z = y * 2 ^ 52 - of_int 7025615418697974"
    have "y * 2 ^ 52 < 14051230837395949 / 9007199254740992 * 2 ^ 52"
      using h by (rule mult_strict_right_mono) simp
    then have a: "z < 1 / 2" by (simp add: z_def)
    have "14051230837395947 / 9007199254740992 * 2 ^ 52 < y * 2 ^ 52"
      using l by (rule mult_strict_right_mono) simp
    then have b: "- (1 / 2) < z" by (simp add: z_def)
    from a b have "\<bar>z\<bar> < 1 / 2" by linarith
    then show "\<bar>y * 2 ^ 52 - of_int 7025615418697974\<bar> < 1 / 2"
      unfolding z_def .
  qed
  then show ?thesis by (simp add: y_def)
qed

lemma euclidean64_h2_float:
  "euclidean64 (0, 0, 0) (3512807709348987 / 2251799813685248, 0, 0)
     = 3512807709348987 / 2251799813685248"
proof -
  have "round64 (0 - 3512807709348987 / 2251799813685248) = - (3512807709348987 / 2251799813685248)"
    using round64_minus [of "3512807709348987 / 2251799813685248"] by (simp add: round64_d)
  then show ?thesis
    by (simp add: euclidean64_def Let_def round64_0 round64_d_squared round64_s round64_sqrt)
qed

lemma h2_float_radii:
  "get_pair_covalent_radii float64 radii_float h2_float = Inr [5404319552844595 / 4503599627370496]"
  by (simp add: get_pair_covalent_radii_def atoms_def h2_float_def lower_def lower_char_def
      radius_def radii_float_def float64_def round64_sum)

lemma h2_float_pdist:
  "pdist float64 (coords3d h2_float) = [3512807709348987 / 2251799813685248]"
  by (simp add: pdist_def coords3d_def h2_float_def float64_def euclidean64_h2_float)

lemma h2_float_bond_mat:
  "bond_mat float64 (pdist float64 (coords3d h2_float)) [5404319552844595 / 4503599627370496]
     (bond_factor (internal h2_float)) = Inr [[False, True], [True, False]]"
proof -
  have bf: "bond_factor (internal h2_float) = 5854679515581645 / 4503599627370496"
    by (simp add: h2_float_def)
  have d: "sq_dim (Suc 0) = Some 2"
    using sq_dim_triangular [of 1 2] by simp
  have u: "[0..<2] = [0, Suc 0]" by (simp add: upt_rec)
  show ?thesis
    unfolding h2_float_pdist bf
    by (simp add: bond_mat_def float64_def round64_product squareform_def d square_def u)
qed

subsection \<open>The example geometries\<close>

lemmas ex_defs = radii_ex_def atoms_def coords3d_def natoms_def lower_def lower_char_def

lemma known_dom: "known cr g \<longleftrightarrow> (\<forall>s \<in> set (atoms g). lower s \<in> dom cr)"
  by (auto simp: known_def)

lemma sqrt_le_numeral: "0 \<le> y \<Longrightarrow> sqrt x \<le> y \<longleftrightarrow> x \<le> y\<^sup>2"
  by (metis abs_of_nonneg real_sqrt_abs real_sqrt_le_iff)

lemma sqrt_mult_le_numeral:
  assumes "0 \<le> c" "0 \<le> d"
  shows "sqrt x * c \<le> d \<longleftrightarrow> x * c\<^sup>2 \<le> d\<^sup>2"
proof -
  have "sqrt x * c = sqrt (x * c\<^sup>2)"
    using assms(1) by (simp add: real_sqrt_mult)
  then show ?thesis using assms(2) by (simp add: sqrt_le_numeral)
qed

lemma hoch2_known: "known radii_ex hoch2"
  by (simp add: known_dom hoch2_def ex_defs)

lemma hoch2_prims:
  "prim_coords (internal hoch2) =
     [\<lparr>inds = [0, 1]\<rparr>, \<lparr>inds = [1, 2]\<rparr>, \<lparr>inds = [2, 3]\<rparr>, \<lparr>inds = [2, 4]\<rparr>,
      \<lparr>inds = [0, 1, 2]\<rparr>, \<lparr>inds = [1, 2, 3]\<rparr>, \<lparr>inds = [1, 2, 4]\<rparr>, \<lparr>inds = [3, 2, 4]\<rparr>,
      \<lparr>inds = [0, 1, 2, 3]\<rparr>, \<lparr>inds = [0, 1, 2, 4]\<rparr>]"
  "bond_factor (internal hoch2) = 1.3"
  by (simp_all add: hoch2_def)

lemma hoch2_natoms: "natoms hoch2 = 5"
  by (simp add: hoch2_def ex_defs)

lemma hoch2_valid: "valid_internal hoch2"
  by (simp add: valid_internal_def valid_prim_def hoch2_def ex_defs)

lemma hoch2_distance:
  "distance exact hoch2 (Suc 0) 0 = 2" "distance exact hoch2 (Suc 0) 2 = 2"
  by (simp_all add: distance_def exact_def euclidean_def hoch2_def ex_defs)

lemma hoch2_cov_sum:
  "cov_sum exact radii_ex hoch2 (Suc 0) 0 = 1.8" "cov_sum exact radii_ex hoch2 (Suc 0) 2 = 2.6"
  by (simp_all add: cov_sum_def cov_radius_def exact_def hoch2_def ex_defs)

lemma hoch2_positive_radii: "positive_radii exact radii_ex hoch2"
  by (simp add: positive_radii_def cov_sum_def cov_radius_def hoch2_natoms eval_nat_numeral All_less_Suc)
     (simp add: exact_def hoch2_def ex_defs)



lemma hoch2_degree:
  "degree exact radii_ex hoch2 (Suc 0) = 2" "degree exact radii_ex hoch2 2 = 3"
  by (simp_all add: degree_def hoch2_natoms upt_rec bonded_def hoch2_prims)
     (simp_all add: distance_def euclidean_def cov_sum_def cov_radius_def exact_def hoch2_def
        ex_defs sqrt_le_numeral sqrt_mult_le_numeral)

lemma hoch2_bond_sum: "bond_sum_of exact radii_ex hoch2 (Suc 0) 2 = 3"
  by (simp add: bond_sum_of_def hoch2_degree)

lemma hoch2_valid_prims: "\<forall>p \<in> set (prim_coords (internal hoch2)). valid_prim hoch2 p"
  using hoch2_valid by (simp add: valid_internal_def)

section \<open>The claims\<close>

subsection \<open>simple\_guess\<close>

lemma h_dict_kind:
  "n \<in> {2, 3, 4} \<Longrightarrow>
   getitem h_dict n = Inr (if n = 2 then 0.5 else if n = 3 then 0.2 else 0.1)"
  by (auto simp: getitem_def h_dict_def)

lemma simple_guess_kinds:
  assumes "\<forall>p \<in> set (prim_coords (internal g)). length (inds p) \<in> {2, 3, 4}"
  shows "simple_guess g =
     Inr (diagflat 0 (map (\<lambda>p. if length (inds p) = 2 then 0.5
                               else if length (inds p) = 3 then 0.2 else 0.1)
                        (prim_coords (internal g))))"
proof -
  have "collect (\<lambda>prim. getitem h_dict (length (inds prim))) (prim_coords (internal g)) =
      Inr (map (\<lambda>p. if length (inds p) = 2 then 0.5
                     else if length (inds p) = 3 then 0.2 else 0.1)
               (prim_coords (internal g)))"
    using assms by (intro collect_Inr_map) (simp add: h_dict_kind)
  then show ?thesis by (simp add: simple_guess_def)
qed

text \<open>
  C1. For every geometry whose primitives are bonds, bends and dihedrals (2, 3 or 4 atom
  indices), \<open>simple_guess\<close> returns the diagonal matrix whose entry \<open>k\<close> is 0.5 for a bond,
  0.2 for a bend and 0.1 for a dihedral, and zero off the diagonal. A geometry whose
  primitives are [bond, bond, bend], as for water, gets the diagonal [0.5, 0.5, 0.2].
\<close>

theorem simple_guess_diagonal:
  "((\<forall>p \<in> set (prim_coords (internal g)). length (inds p) \<in> {2, 3, 4}) \<longrightarrow>
     (\<exists>H. simple_guess g = Inr H \<and> length H = length (prim_coords (internal g)) \<and>
        (\<forall>i < length H. length (H ! i) = length H \<and>
           (\<forall>j < length H. H ! i ! j =
              (if i = j
               then (if length (inds (prim_coords (internal g) ! i)) = 2 then 0.5
                     else if length (inds (prim_coords (internal g) ! i)) = 3 then 0.2
                     else 0.1)
               else 0))))) \<and>
   (map (\<lambda>p. length (inds p)) (prim_coords (internal g)) = [2, 2, 3] \<longrightarrow>
     simple_guess g = Inr [[0.5, 0, 0], [0, 0.5, 0], [0, 0, 0.2]])"
proof (intro conjI impI)
  assume a: "\<forall>p \<in> set (prim_coords (internal g)). length (inds p) \<in> {2, 3, 4}"
  show "\<exists>H. simple_guess g = Inr H \<and> length H = length (prim_coords (internal g)) \<and>
        (\<forall>i < length H. length (H ! i) = length H \<and>
           (\<forall>j < length H. H ! i ! j =
              (if i = j
               then (if length (inds (prim_coords (internal g) ! i)) = 2 then 0.5
                     else if length (inds (prim_coords (internal g) ! i)) = 3 then 0.2
                     else 0.1)
               else 0)))"
    by (simp add: simple_guess_kinds [OF a] length_diagflat length_diagflat_row diagflat_nth)
next
  assume m: "map (\<lambda>p. length (inds p)) (prim_coords (internal g)) = [2, 2, 3]"
  then obtain p q r where ps: "prim_coords (internal g) = [p, q, r]"
    and l: "length (inds p) = 2" "length (inds q) = 2" "length (inds r) = 3"
    by (auto simp: map_eq_Cons_conv)
  have "\<forall>p \<in> set (prim_coords (internal g)). length (inds p) \<in> {2, 3, 4}"
    by (simp add: ps l)
  then show "simple_guess g = Inr [[0.5, 0, 0], [0, 0.5, 0], [0, 0, 0.2]]"
    by (simp add: simple_guess_kinds ps l diagflat_3)
qed

theorem simple_guess_diagonal_witness:
  "simple_guess h2o = Inr [[0.5, 0, 0], [0, 0.5, 0], [0, 0, 0.2]]"
  using simple_guess_diagonal [of h2o]
  by (simp add: h2o_def internal_h2o_def)

subsection \<open>Unknown element symbols\<close>

lemma find_unknown:
  "\<not> known cr g \<Longrightarrow> \<exists>s. find (\<lambda>s. cr s = None) (map lower (atoms g)) = Some s"
  by (cases "find (\<lambda>s. cr s = None) (map lower (atoms g))") (auto simp: known_def find_None_iff)

lemma fischer_guess_no_radii:
  "get_pair_covalent_radii fo cr g = Inl e \<Longrightarrow> fischer_guess fo cr g = Inl e"
  by (simp add: fischer_guess_def)

lemma lindh_guess_no_radii:
  "get_pair_covalent_radii fo cr g = Inl e \<Longrightarrow> lindh_guess fo cr g = Inl e"
  by (simp add: lindh_guess_def)

lemma swart_guess_no_radii:
  "get_pair_covalent_radii fo cr g = Inl e \<Longrightarrow> swart_guess fo cr g = Inl e"
  by (simp add: swart_guess_def)

text \<open>
  C7. When some element symbol of the geometry, lower-cased, is not in the table of
  covalent radii, \<open>fischer_guess\<close>, \<open>lindh_guess\<close> and \<open>swart_guess\<close> return no matrix: each
  raises the \<open>KeyError\<close> of the table lookup, which names the first such symbol. No radius
  is substituted.
\<close>

theorem unknown_element_raises:
  assumes "\<not> known cr g"
  shows "\<exists>s. find (\<lambda>s. cr s = None) (map lower (atoms g)) = Some s \<and>
     fischer_guess fo cr g = Inl (KeyError (KStr s)) \<and>
     lindh_guess fo cr g = Inl (KeyError (KStr s)) \<and>
     swart_guess fo cr g = Inl (KeyError (KStr s))"
proof -
  from find_unknown [OF assms] obtain s
    where s: "find (\<lambda>s. cr s = None) (map lower (atoms g)) = Some s" ..
  from get_pair_covalent_radii_unknown [OF s] s show ?thesis
    by (simp add: fischer_guess_no_radii lindh_guess_no_radii swart_guess_no_radii)
qed

theorem unknown_element_raises_witness:
  "fischer_guess exact radii_ex h2o_unknown = Inl (KeyError (KStr ''xx'')) \<and>
   lindh_guess exact radii_ex h2o_unknown = Inl (KeyError (KStr ''xx'')) \<and>
   swart_guess exact radii_ex h2o_unknown = Inl (KeyError (KStr ''xx''))"
proof -
  have "\<not> known radii_ex h2o_unknown"
    by (simp add: known_def radii_ex_def h2o_unknown_def atoms_def lower_def lower_char_def)
  from unknown_element_raises [OF this] show ?thesis
    by (simp add: radii_ex_def h2o_unknown_def atoms_def lower_def lower_char_def)
qed

subsection \<open>Letter case of the element symbols\<close>

text \<open>
  C9. Two geometries that differ only in the letter case of their element symbols (the
  lower-cased symbols, the coordinates and the internal coordinates agree) get the same
  result from each of the four generators, a matrix or an exception.
\<close>

theorem case_insensitive:
  assumes "map lower (atoms g) = map lower (atoms g')"
    and "coords3d g = coords3d g'" and "internal g = internal g'"
  shows "simple_guess g = simple_guess g' \<and> fischer_guess fo cr g = fischer_guess fo cr g' \<and>
     lindh_guess fo cr g = lindh_guess fo cr g' \<and> swart_guess fo cr g = swart_guess fo cr g'"
proof -
  have p: "get_pair_covalent_radii fo cr g = get_pair_covalent_radii fo cr g'"
    by (simp add: get_pair_covalent_radii_def assms)
  show ?thesis
    unfolding simple_guess_def fischer_guess_def lindh_guess_def swart_guess_def p assms
    by (intro conjI refl)
qed

theorem case_insensitive_witness:
  "simple_guess h2o = simple_guess h2o_cases \<and>
   fischer_guess exact radii_ex h2o = fischer_guess exact radii_ex h2o_cases \<and>
   lindh_guess exact radii_ex h2o = lindh_guess exact radii_ex h2o_cases \<and>
   swart_guess exact radii_ex h2o = swart_guess exact radii_ex h2o_cases"
proof -
  have "map lower (atoms h2o) = map lower (atoms h2o_cases)"
    by (simp add: h2o_def h2o_cases_def atoms_def lower_def lower_char_def)
  moreover have "coords3d h2o = coords3d h2o_cases"
    by (simp add: h2o_def h2o_cases_def coords3d_def)
  moreover have "internal h2o = internal h2o_cases"
    by (simp add: h2o_def h2o_cases_def)
  ultimately show ?thesis by (rule case_insensitive)
qed

subsection \<open>The force constants of fischer\_guess\<close>

text \<open>
  C2. When \<open>fischer_guess\<close> returns a matrix, the entry of a bend with the central atom
  \<open>a\<close> and the terminal atoms \<open>b\<close> and \<open>c\<close> (three distinct atoms) is
  \<open>0.089 + 0.11 (r_ab_cov r_ac_cov)^0.42 exp (-0.44 (r_ab + r_ac - r_ab_cov - r_ac_cov))\<close>,
  with the positive exponent 0.42: the code divides by the power \<open>-0.42\<close>. Here \<open>r_xy\<close> is
  the distance of the pair from \<^verbatim>\<open>pdist\<close> and \<open>r_xy_cov\<close> the sum of its two radii. Where the
  product of the two sums is negative there is no real power, and numpy gives \<^verbatim>\<open>nan\<close>.
\<close>

theorem fischer_bend:
  assumes "fischer_guess fo cr g = Inr H"
    and "k < length (prim_coords (internal g))"
    and "inds (prim_coords (internal g) ! k) = [b, a, c]"
    and "a \<noteq> b" and "a \<noteq> c"
  shows "H ! k ! k =
     (if cov_sum fo cr g a b * cov_sum fo cr g a c < 0 then None
      else Some (0.089 + 0.11 * (cov_sum fo cr g a b * cov_sum fo cr g a c) powr 0.42
                   * exp (- 0.44 * (distance fo g a b + distance fo g a c
                                    - cov_sum fo cr g a b - cov_sum fo cr g a c))))"
proof -
  from assms(1,2) obtain t where
    "h_func (dist_mat_of fo g) (cov_mat_of fo cr g) t (prim_coords (internal g) ! k) = Inr (H ! k ! k)"
    by (rule fischer_entry)
  then have h: "h_bend (dist_mat_of fo g) (cov_mat_of fo cr g) b a c = Inr (H ! k ! k)"
    by (simp add: h_func_def assms(3))
  from h_bend_range [OF h] assms(4,5) have "a < natoms g" "b < natoms g" "c < natoms g"
    using natoms_from_distinct [of a g b] natoms_from_distinct [of a g c] by auto
  from h_bend_value [OF this assms(4,5), where cr = cr and fo = fo] h show ?thesis by simp
qed

theorem fischer_bend_witness:
  "\<exists>H. fischer_guess exact radii_ex hoch2 = Inr H \<and>
     H ! 4 ! 4 = Some (0.089 + 0.11 * (1.8 * 2.6) powr 0.42 * exp (- 0.44 * (2 + 2 - 1.8 - 2.6)))"
proof -
  from fischer_guess_valid [OF hoch2_known hoch2_valid] obtain H
    where H: "fischer_guess exact radii_ex hoch2 = Inr H" by blast
  have "H ! 4 ! 4 = Some (0.089 + 0.11 * (1.8 * 2.6) powr 0.42 * exp (- 0.44 * (2 + 2 - 1.8 - 2.6)))"
    using fischer_bend [OF H, of 4 0 1 2]
    by (simp add: hoch2_prims hoch2_distance hoch2_cov_sum)
  with H show ?thesis by blast
qed

text \<open>
  C3. When \<open>fischer_guess\<close> returns a matrix, the entry of a dihedral with the central
  atoms \<open>a \<noteq> b\<close> is \<open>0.0015 + 14 bond_sum^0.57 / (r_ab r_ab_cov)^4 exp (-2.85 (r_ab - r_ab_cov))\<close>
  with \<open>bond_sum = deg a + deg b - 2\<close>, the degrees being counted in the bond matrix; when
  \<open>a\<close> and \<open>b\<close> are bonded this is the number of bonds at \<open>a\<close> other than the one to \<open>b\<close> plus
  the number of bonds at \<open>b\<close> other than the one to \<open>a\<close>. (A negative \<open>bond_sum\<close> or a zero
  denominator gives \<^verbatim>\<open>nan\<close> or \<^verbatim>\<open>inf\<close>.)
\<close>

theorem fischer_dihedral:
  assumes "fischer_guess fo cr g = Inr H"
    and "k < length (prim_coords (internal g))"
    and "inds (prim_coords (internal g) ! k) = [c, a, b, d]"
    and "a \<noteq> b"
  shows "H ! k ! k =
     (if bond_sum_of fo cr g a b < 0 \<or> distance fo g a b * cov_sum fo cr g a b = 0 then None
      else Some (0.0015 + 14.0 * (real_of_int (bond_sum_of fo cr g a b)) powr 0.57
                            / (distance fo g a b * cov_sum fo cr g a b) ^ 4
                            * exp (- 2.85 * (distance fo g a b - cov_sum fo cr g a b)))) \<and>
     bond_sum_of fo cr g a b = int (degree fo cr g a) + int (degree fo cr g b) - 2 \<and>
     (bonded fo cr g a b \<longrightarrow>
        bond_sum_of fo cr g a b =
          int (length (filter (\<lambda>j. bonded fo cr g a j \<and> j \<noteq> b) [0..<natoms g])) +
          int (length (filter (\<lambda>j. bonded fo cr g b j \<and> j \<noteq> a) [0..<natoms g])))"
proof -
  from assms(1,2) obtain t where
    t: "tors_loop (bond_mat_of fo cr g) (central_atoms (dihedrals (internal g))) Map.empty = Inr t"
    and "h_func (dist_mat_of fo g) (cov_mat_of fo cr g) t (prim_coords (internal g) ! k) = Inr (H ! k ! k)"
    by (rule fischer_entry)
  then have h: "h_dihedral (dist_mat_of fo g) (cov_mat_of fo cr g) t a b = Inr (H ! k ! k)"
    by (simp add: h_func_def assms(3))
  from h_dihedral_range [OF h] assms(4) have n: "a < natoms g" "b < natoms g"
    using natoms_from_distinct [of a g b] by auto
  from h_dihedral_key [OF h] obtain bond_sum where key: "t (a, b) = Some bond_sum" ..
  from tors_atom_bonds_value [OF t key] have bs: "bond_sum = bond_sum_of fo cr g a b" .
  have val: "H ! k ! k =
     (if bond_sum_of fo cr g a b < 0 \<or> distance fo g a b * cov_sum fo cr g a b = 0 then None
      else Some (0.0015 + 14.0 * (real_of_int (bond_sum_of fo cr g a b)) powr 0.57
                            / (distance fo g a b * cov_sum fo cr g a b) ^ 4
                            * exp (- 2.85 * (distance fo g a b - cov_sum fo cr g a b))))"
    using h_dihedral_value [where cr = cr and fo = fo and a = a and b = b and t = t and g = g, OF n assms(4) key] h unfolding bs by simp
  have excl: "bond_sum_of fo cr g a b =
          int (length (filter (\<lambda>j. bonded fo cr g a j \<and> j \<noteq> b) [0..<natoms g])) +
          int (length (filter (\<lambda>j. bonded fo cr g b j \<and> j \<noteq> a) [0..<natoms g]))"
    if "bonded fo cr g a b"
  proof -
    from that have "bonded fo cr g b a" by (simp add: bonded_sym)
    with that n show ?thesis
      by (simp add: bond_sum_of_def degree_except)
  qed
  from val excl show ?thesis by (simp add: bond_sum_of_def)
qed

theorem fischer_dihedral_witness:
  "\<exists>H. fischer_guess exact radii_ex hoch2 = Inr H \<and>
     H ! 8 ! 8 = Some (0.0015 + 14.0 * 3 powr 0.57 / (2 * 2.6) ^ 4 * exp (- 2.85 * (2 - 2.6))) \<and>
     bond_sum_of exact radii_ex hoch2 1 2 = 3 \<and>
     length (filter (\<lambda>j. bonded exact radii_ex hoch2 1 j \<and> j \<noteq> 2) [0..<natoms hoch2]) = 1 \<and>
     length (filter (\<lambda>j. bonded exact radii_ex hoch2 2 j \<and> j \<noteq> 1) [0..<natoms hoch2]) = 2"
proof -
  from fischer_guess_valid [OF hoch2_known hoch2_valid] obtain H
    where H: "fischer_guess exact radii_ex hoch2 = Inr H" by blast
  have b: "bonded exact radii_ex hoch2 (Suc 0) 2"
    by (simp add: bonded_def hoch2_distance hoch2_cov_sum hoch2_prims) (simp add: exact_def)
  have n: "(2::nat) < natoms hoch2" "Suc 0 < natoms hoch2" by (simp_all add: hoch2_natoms)
  have c1: "int (length (filter (\<lambda>j. bonded exact radii_ex hoch2 (Suc 0) j \<and> j \<noteq> 2) [0..<natoms hoch2])) = 1"
    using degree_except [OF b n(1)] by (simp add: hoch2_degree)
  have c2: "int (length (filter (\<lambda>j. bonded exact radii_ex hoch2 2 j \<and> j \<noteq> Suc 0) [0..<natoms hoch2])) = 2"
    using degree_except [OF b [unfolded bonded_sym [of _ _ _ "Suc 0" 2]] n(2)] by (simp add: hoch2_degree)
  have "H ! 8 ! 8 = Some (0.0015 + 14.0 * 3 powr 0.57 / (2 * 2.6) ^ 4 * exp (- 2.85 * (2 - 2.6)))"
    using fischer_dihedral [OF H, of 8 0 1 2 3]
    by (simp add: hoch2_prims hoch2_distance hoch2_cov_sum hoch2_bond_sum)
  with H c1 c2 show ?thesis by (auto simp: hoch2_bond_sum)
qed

text \<open>
  C10. When \<open>fischer_guess\<close> returns a matrix, two dihedrals with the same central atoms
  in the same order (positions 1 and 2 of their four indices) have equal entries, whatever
  their terminal atoms are.
\<close>

theorem fischer_dihedral_central:
  assumes "fischer_guess fo cr g = Inr H"
    and "k1 < length (prim_coords (internal g))" and "k2 < length (prim_coords (internal g))"
    and "length (inds (prim_coords (internal g) ! k1)) = 4"
    and "length (inds (prim_coords (internal g) ! k2)) = 4"
    and "inds (prim_coords (internal g) ! k1) ! 1 = inds (prim_coords (internal g) ! k2) ! 1"
    and "inds (prim_coords (internal g) ! k1) ! 2 = inds (prim_coords (internal g) ! k2) ! 2"
  shows "H ! k1 ! k1 = H ! k2 ! k2"
proof -
  from assms(4) obtain c a b d where i1: "inds (prim_coords (internal g) ! k1) = [c, a, b, d]"
    by (auto simp: eval_nat_numeral length_Suc_conv)
  from assms(5) obtain c' a' b' d' where i2: "inds (prim_coords (internal g) ! k2) = [c', a', b', d']"
    by (auto simp: eval_nat_numeral length_Suc_conv)
  from assms(6,7) have eq: "a' = a" "b' = b" by (simp_all add: i1 i2)
  from assms(1) obtain t h_diag where
    c: "collect (h_func (dist_mat_of fo g) (cov_mat_of fo cr g) t) (prim_coords (internal g)) = Inr h_diag"
    and H: "H = diagflat (Some 0) h_diag"
    by (rule fischer_guess_Inr)
  have len: "length h_diag = length (prim_coords (internal g))"
    by (rule collect_Inr_length [OF c])
  have "h_dihedral (dist_mat_of fo g) (cov_mat_of fo cr g) t a b = Inr (h_diag ! k1)"
    using collect_Inr_nth [OF c assms(2)] by (simp add: h_func_def i1)
  moreover have "h_dihedral (dist_mat_of fo g) (cov_mat_of fo cr g) t a b = Inr (h_diag ! k2)"
    using collect_Inr_nth [OF c assms(3)] by (simp add: h_func_def i2 eq)
  ultimately have "h_diag ! k1 = h_diag ! k2" by simp
  then show ?thesis using assms(2,3) by (simp add: H diagflat_nth len)
qed

theorem fischer_dihedral_central_witness:
  "\<exists>H. fischer_guess exact radii_ex hoch2 = Inr H \<and> H ! 8 ! 8 = H ! 9 ! 9"
proof -
  from fischer_guess_valid [OF hoch2_known hoch2_valid] obtain H
    where H: "fischer_guess exact radii_ex hoch2 = Inr H" by blast
  have "H ! 8 ! 8 = H ! 9 ! 9"
    by (rule fischer_dihedral_central [OF H]) (simp_all add: hoch2_prims)
  with H show ?thesis by blast
qed

subsection \<open>The bond decision\<close>

text \<open>
  C6 as the claim states it, with the exact distance and the exact product
  \<open>bond_factor * (r_i + r_j)\<close>, fails on the float64 arithmetic of the program: for the two
  hydrogen atoms of \<open>h2_float\<close> the exact product is smaller than the distance, and the
  program bonds the pair, since the product rounds up to the distance.
\<close>

theorem bond_decision_exact_counterexample:
  "get_pair_covalent_radii float64 radii_float h2_float = Inr [5404319552844595 / 4503599627370496] \<and>
   bond_mat float64 (pdist float64 (coords3d h2_float)) [5404319552844595 / 4503599627370496]
     (bond_factor (internal h2_float)) = Inr [[False, True], [True, False]] \<and>
   \<not> euclidean (coords3d h2_float ! 0) (coords3d h2_float ! 1)
       \<le> bond_factor (internal h2_float)
          * (cov_radius radii_float h2_float 0 + cov_radius radii_float h2_float 1)"
proof -
  have "\<not> euclidean (coords3d h2_float ! 0) (coords3d h2_float ! 1)
       \<le> bond_factor (internal h2_float)
          * (cov_radius radii_float h2_float 0 + cov_radius radii_float h2_float 1)"
    by (simp add: coords3d_def h2_float_def euclidean_on_x_axis cov_radius_def atoms_def
        lower_def lower_char_def radii_float_def)
  with h2_float_radii h2_float_bond_mat show ?thesis by blast
qed

text \<open>
  C6, amended. For two distinct atoms \<open>i\<close> and \<open>j\<close> of a geometry whose symbols are known, the
  entry \<open>(i, j)\<close> of \<^verbatim>\<open>bond_mat\<close> is true if and only if the distance that \<^verbatim>\<open>pdist\<close>
  computed for the pair is at most the rounded product of the bond factor and the rounded
  sum \<open>r_i + r_j\<close>. The comparison is inclusive: when the two computed values are equal the
  pair is bonded. This holds whatever the rounding and the metric are.
\<close>

theorem bond_decision:
  assumes "known cr g" "i < natoms g" "j < natoms g" "i \<noteq> j"
  shows "\<exists>pair_cov_radii bm.
     get_pair_covalent_radii fo cr g = Inr pair_cov_radii \<and>
     bond_mat fo (pdist fo (coords3d g)) pair_cov_radii (bond_factor (internal g)) = Inr bm \<and>
     i < length bm \<and> j < length (bm ! i) \<and>
     (bm ! i ! j \<longleftrightarrow>
        distance fo g i j \<le> rnd fo (bond_factor (internal g) * cov_sum fo cr g i j)) \<and>
     (distance fo g i j = rnd fo (bond_factor (internal g) * cov_sum fo cr g i j) \<longrightarrow> bm ! i ! j)"
proof -
  have "mat_get (bond_mat_of fo cr g) i j = Inr (bonded fo cr g i j)"
    using assms by (simp add: mat_get_bond_mat)
  then have e: "i < length (bond_mat_of fo cr g)" "j < length (bond_mat_of fo cr g ! i)"
      "bond_mat_of fo cr g ! i ! j = bonded fo cr g i j"
    by (auto simp: mat_get_def split: if_splits)
  have b: "bonded fo cr g i j \<longleftrightarrow>
      distance fo g i j \<le> rnd fo (bond_factor (internal g) * cov_sum fo cr g i j)"
    using assms by (simp add: bonded_def mult.commute)
  show ?thesis
    using get_pair_cov_vec [OF assms(1)] bond_mat_bond_mat_of [where g = g and cr = cr and fo = fo] e b
    by auto
qed

theorem bond_decision_witness:
  "\<exists>pair_cov_radii bm.
     get_pair_covalent_radii float64 radii_float h2_float = Inr pair_cov_radii \<and>
     bond_mat float64 (pdist float64 (coords3d h2_float)) pair_cov_radii
       (bond_factor (internal h2_float)) = Inr bm \<and>
     distance float64 h2_float 0 1
       = rnd float64 (bond_factor (internal h2_float) * cov_sum float64 radii_float h2_float 0 1) \<and>
     bm ! 0 ! 1"
proof -
  have k: "known radii_float h2_float"
    by (simp add: known_def radii_float_def h2_float_def atoms_def lower_def lower_char_def)
  have n: "0 < natoms h2_float" "1 < natoms h2_float"
    by (simp_all add: natoms_def h2_float_def)
  have c: "cov_sum float64 radii_float h2_float 0 1 = 5404319552844595 / 4503599627370496"
    by (simp add: cov_sum_def cov_radius_def atoms_def h2_float_def lower_def lower_char_def
        radii_float_def float64_def round64_sum)
  have d: "distance float64 h2_float 0 1
       = rnd float64 (bond_factor (internal h2_float) * cov_sum float64 radii_float h2_float 0 1)"
    unfolding c
    by (simp add: distance_def coords3d_def h2_float_def float64_def euclidean64_h2_float
        round64_product mult.commute)
  from bond_decision [OF k n, of float64] d show ?thesis
    by auto
qed

subsection \<open>The Lindh and the Swart model\<close>

text \<open>
  C4. When \<open>lindh_guess\<close> returns a matrix, the entry of a primitive whose consecutive
  atoms are distinct is the constant of its kind (0.45 for a bond, 0.15 for a bend, 0.005
  for a dihedral) times the product, over the consecutive pairs \<open>(i, j)\<close> of its index
  tuple, of \<open>exp (\<alpha>_ij (r_cov,ij^2 - r_ij^2))\<close>, where \<open>\<alpha>_ij\<close> is 1 when both atoms are H or
  He, 0.3949 when exactly one is, and 0.28 otherwise.
\<close>

theorem lindh_chain_product:
  assumes "lindh_guess fo cr g = Inr H"
    and "k < length (prim_coords (internal g))"
    and "\<forall>(i, j) \<in> set (consecutive (inds (prim_coords (internal g) ! k))). i \<noteq> j"
  shows "length (inds (prim_coords (internal g) ! k)) \<in> {2, 3, 4} \<and>
     H ! k ! k =
       (if length (inds (prim_coords (internal g) ! k)) = 2 then 0.45
        else if length (inds (prim_coords (internal g) ! k)) = 3 then 0.15 else 0.005)
       * prod_list
           (map (\<lambda>(i, j). exp (alpha g i j * ((cov_sum fo cr g i j)\<^sup>2 - (distance fo g i j)\<^sup>2)))
              (consecutive (inds (prim_coords (internal g) ! k))))"
proof -
  from assms(1) obtain k_diag where
    c: "collect (lindh_k (lindh_rhos_of fo cr g)) (prim_coords (internal g)) = Inr k_diag"
    and H: "H = diagflat 0 k_diag"
    by (rule lindh_guess_Inr)
  from collect_Inr_length [OF c] assms(2) have "k < length k_diag" by simp
  then have "H ! k ! k = k_diag ! k" by (simp add: H diagflat_nth)
  with collect_Inr_nth [OF c assms(2)]
  have "lindh_k (lindh_rhos_of fo cr g) (prim_coords (internal g) ! k) = Inr (H ! k ! k)"
    by simp
  from lindh_k_value [OF this assms(3)] show ?thesis
    by (simp add: chain_product_def k_types_def lindh_rho_def)
qed

theorem lindh_chain_product_witness:
  "\<exists>H. lindh_guess exact radii_ex hoch2 = Inr H \<and>
     H ! 8 ! 8 = 0.005 * (exp (0.3949 * (1.8\<^sup>2 - 2\<^sup>2)) * (exp (0.28 * (2.6\<^sup>2 - 2\<^sup>2))
                          * exp (0.3949 * (2\<^sup>2 - 2\<^sup>2))))"
proof -
  from lindh_guess_valid [OF hoch2_known hoch2_valid_prims] obtain H
    where H: "lindh_guess exact radii_ex hoch2 = Inr H" by blast
  have "H ! 8 ! 8 = 0.005 * (exp (0.3949 * (1.8\<^sup>2 - 2\<^sup>2)) * (exp (0.28 * (2.6\<^sup>2 - 2\<^sup>2))
                          * exp (0.3949 * (2\<^sup>2 - 2\<^sup>2))))"
    using lindh_chain_product [OF H, of 8]
    by (simp add: hoch2_prims consecutive_def)
       (simp add: alpha_def first_period_atom_def cov_sum_def cov_radius_def distance_def
          exact_def euclidean_def hoch2_def ex_defs)
  with H show ?thesis by blast
qed

text \<open>
  C5. On a geometry with known symbols, well-formed primitives and positive sums of
  radii, \<open>swart_guess\<close> is the chain-product scheme with \<open>\<rho>(i, j) = exp (1 - r_ij / r_cov,ij)\<close>
  and the constants 0.35, 0.15 and 0.005, and \<open>lindh_guess\<close> is the same scheme with its
  own pair function and the constants 0.45, 0.15 and 0.005.
\<close>

theorem swart_lindh_chain_product:
  assumes "known cr g" and "\<forall>p \<in> set (prim_coords (internal g)). valid_prim g p"
    and "positive_radii fo cr g"
  shows "swart_guess fo cr g =
       Inr (diagflat (Some 0)
              (map (\<lambda>p. Some (chain_product (k_types 0.35 0.15 0.005)
                                (\<lambda>i j. exp (1 - distance fo g i j / cov_sum fo cr g i j)) p))
                 (prim_coords (internal g)))) \<and>
     lindh_guess fo cr g =
       Inr (diagflat 0
              (map (chain_product (k_types 0.45 0.15 0.005)
                      (\<lambda>i j. exp (alpha g i j
                                  * ((cov_sum fo cr g i j)\<^sup>2 - (distance fo g i j)\<^sup>2))))
                 (prim_coords (internal g))))"
proof -
  have s: "swart_rho_of fo cr g = (\<lambda>i j. exp (1 - distance fo g i j / cov_sum fo cr g i j))"
    by (simp add: swart_rho_of_def fun_eq_iff)
  have l: "lindh_rho fo cr g =
      (\<lambda>i j. exp (alpha g i j * ((cov_sum fo cr g i j)\<^sup>2 - (distance fo g i j)\<^sup>2)))"
    by (simp add: lindh_rho_def fun_eq_iff)
  from swart_guess_valid [OF assms] lindh_guess_valid [OF assms(1,2), of fo] show ?thesis
    unfolding s l by (rule conjI)
qed

theorem swart_lindh_chain_product_witness:
  "swart_guess exact radii_ex hoch2 =
       Inr (diagflat (Some 0)
              (map (\<lambda>p. Some (chain_product (k_types 0.35 0.15 0.005)
                                (\<lambda>i j. exp (1 - distance exact hoch2 i j
                                               / cov_sum exact radii_ex hoch2 i j)) p))
                 (prim_coords (internal hoch2)))) \<and>
     lindh_guess exact radii_ex hoch2 =
       Inr (diagflat 0
              (map (chain_product (k_types 0.45 0.15 0.005)
                      (\<lambda>i j. exp (alpha hoch2 i j
                                  * ((cov_sum exact radii_ex hoch2 i j)\<^sup>2
                                     - (distance exact hoch2 i j)\<^sup>2))))
                 (prim_coords (internal hoch2)))) \<and>
     chain_product (k_types 0.35 0.15 0.005)
        (\<lambda>i j. exp (1 - distance exact hoch2 i j / cov_sum exact radii_ex hoch2 i j))
        \<lparr>inds = [0, 1, 2]\<rparr>
       = 0.15 * (exp (1 - 2 / 1.8) * exp (1 - 2 / 2.6))"
proof -
  have "chain_product (k_types 0.35 0.15 0.005)
        (\<lambda>i j. exp (1 - distance exact hoch2 i j / cov_sum exact radii_ex hoch2 i j))
        \<lparr>inds = [0, 1, 2]\<rparr>
       = 0.15 * (exp (1 - 2 / 1.8) * exp (1 - 2 / 2.6))"
    by (simp add: chain_product_def k_types_def consecutive_def)
       (simp add: cov_sum_def cov_radius_def distance_def exact_def euclidean_def hoch2_def
          ex_defs)
  with swart_lindh_chain_product [OF hoch2_known hoch2_valid_prims hoch2_positive_radii]
  show ?thesis by blast
qed

subsection \<open>Shape and sign of the guess Hessians\<close>



end
